theory Spec2Isabelle
  imports Main "HOL-Library.Sublist" "HOL-Library.Multiset"
begin

section \<open>JavaScript strings and numbers\<close>

text \<open>
  A string of the source is a \<^typ>\<open>string\<close> whose characters are the code units
  \<open>0\<close> to \<open>255\<close>. Weights and axis bounds are \<^typ>\<open>int\<close>; codepoints and slice
  indices, which the source only ever produces as non-negative integers, are \<^typ>\<open>nat\<close>.
  Fractional numbers and \<open>NaN\<close> are outside the model.
\<close>

definition digitChar :: "nat \<Rightarrow> char" where
  "digitChar d = ''0123456789ABCDEF'' ! d"

text \<open>\<open>String(n)\<close> of a non-negative integer: decimal, no leading zeros.\<close>

fun natToString :: "nat \<Rightarrow> string" where
  "natToString n =
     (if n < 10 then [digitChar n] else natToString (n div 10) @ [digitChar (n mod 10)])"

text \<open>\<open>`${n}`\<close> of an integer.\<close>

definition numberToString :: "int \<Rightarrow> string" where
  "numberToString i =
     (if i < 0 then ''-'' @ natToString (nat (- i)) else natToString (nat i))"

text \<open>\<open>n.toString(16).toUpperCase()\<close> of a non-negative integer.\<close>

fun toHexUpper :: "nat \<Rightarrow> string" where
  "toHexUpper n =
     (if n < 16 then [digitChar n] else toHexUpper (n div 16) @ [digitChar (n mod 16)])"

text \<open>\<open>parts.join(sep)\<close>.\<close>

fun join :: "string \<Rightarrow> string list \<Rightarrow> string" where
  "join sep [] = []"
| "join sep [s] = s"
| "join sep (s # t # ss) = s @ sep @ join sep (t # ss)"

definition startsWith :: "string \<Rightarrow> string \<Rightarrow> bool" where
  "startsWith s p = prefix p s"

definition endsWith :: "string \<Rightarrow> string \<Rightarrow> bool" where
  "endsWith s p = suffix p s"

text \<open>
  The white space of \<open>trim()\<close> and of the regular expression class \<open>\s\<close>, among the
  code units below 256: tab, line feed, vertical tab, form feed, carriage return, space
  and no-break space.
\<close>

definition isWhiteSpace :: "char \<Rightarrow> bool" where
  "isWhiteSpace c = (of_char c \<in> {9, 10, 11, 12, 13, 32, 160 :: nat})"

definition trim :: "string \<Rightarrow> string" where
  "trim s = rev (dropWhile isWhiteSpace (rev (dropWhile isWhiteSpace s)))"

text \<open>\<open>s.split(c)\<close> for a one-character separator: always at least one piece.\<close>

fun splitOn :: "char \<Rightarrow> string \<Rightarrow> string list" where
  "splitOn sep [] = [[]]"
| "splitOn sep (c # cs) =
     (if c = sep then [] # splitOn sep cs
      else (case splitOn sep cs of
              [] \<Rightarrow> [[c]]
            | p # ps \<Rightarrow> (c # p) # ps))"

text \<open>
  \<open>toLowerCase\<close> on one code unit below 256: the letters \<open>A\<close> to \<open>Z\<close>, and the
  upper-case letters from \<open>0xC0\<close> to \<open>0xDE\<close> (\<open>0xD7\<close> is the multiplication sign),
  which lie 32 below their lower-case forms.
\<close>

definition lowerChar :: "char \<Rightarrow> char" where
  "lowerChar c =
     (case map_of (zip ''ABCDEFGHIJKLMNOPQRSTUVWXYZ'' ''abcdefghijklmnopqrstuvwxyz'') c of
        Some l \<Rightarrow> l
      | None \<Rightarrow>
          (let n = (of_char c :: nat)
           in if 192 \<le> n \<and> n \<le> 222 \<and> n \<noteq> 215 then char_of (n + 32) else c))"

definition toLowerCase :: "string \<Rightarrow> string" where
  "toLowerCase s = map lowerChar s"

text \<open>\<open>s.replace(/\s+/g, '-')\<close>: every maximal run of white space becomes one hyphen.\<close>

function replaceWhiteSpaceRuns :: "string \<Rightarrow> string" where
  "replaceWhiteSpaceRuns [] = []"
| "replaceWhiteSpaceRuns (c # cs) =
     (if isWhiteSpace c then CHR ''-'' # replaceWhiteSpaceRuns (dropWhile isWhiteSpace cs)
      else c # replaceWhiteSpaceRuns cs)"
  by pat_completeness auto
termination
  by (relation "measure length") (auto simp: length_dropWhile_le less_Suc_eq_le)

text \<open>
  A \<open>Set\<close> keeps its elements in the order of their first insertion;
  \<open>[...new Set(xs)]\<close> is \<open>newSet xs\<close>.
\<close>

definition setAdd :: "'a list \<Rightarrow> 'a \<Rightarrow> 'a list" where
  "setAdd s x = (if x \<in> set s then s else s @ [x])"

definition newSet :: "'a list \<Rightarrow> 'a list" where
  "newSet xs = foldl setAdd [] xs"

section \<open>utils.ts\<close>

definition normalizeKebabCase :: "string \<Rightarrow> string" where
  "normalizeKebabCase text = replaceWhiteSpaceRuns (toLowerCase text)"

text \<open>
  The two template strings that \<open>codepointsToRangeString\<close> pushes, for a run from
  \<open>rangeStart\<close> to \<open>rangeEnd\<close>.
\<close>

definition rangeText :: "nat \<Rightarrow> nat \<Rightarrow> string" where
  "rangeText rangeStart rangeEnd =
     (if rangeStart = rangeEnd then ''U+'' @ toHexUpper rangeStart
      else ''U+'' @ toHexUpper rangeStart @ ''-'' @ toHexUpper rangeEnd)"

text \<open>
  The \<open>for\<close> loop of \<open>codepointsToRangeString\<close>. The arguments are the elements
  \<open>sorted[i], sorted[i+1], ...\<close> still to visit, the element \<open>sorted[i - 1]\<close>, and the
  variables \<open>rangeStart\<close> and \<open>ranges\<close>; the result is their value after the loop.
\<close>

fun rangeLoop :: "nat list \<Rightarrow> nat \<Rightarrow> nat \<Rightarrow> string list \<Rightarrow> nat \<times> string list" where
  "rangeLoop [] prev rangeStart ranges = (rangeStart, ranges)"
| "rangeLoop (x # xs) prev rangeStart ranges =
     (if x \<noteq> prev + 1
      then rangeLoop xs x x (ranges @ [rangeText rangeStart prev])
      else rangeLoop xs x rangeStart ranges)"

text \<open>The argument is \<open>None\<close> for \<open>undefined\<close>.\<close>

definition codepointsToRangeString :: "nat list option \<Rightarrow> string" where
  "codepointsToRangeString codepoints =
     (case codepoints of
        None \<Rightarrow> ''''
      | Some cps \<Rightarrow>
          (case sort (newSet cps) of
             [] \<Rightarrow> ''''
           | first # rest \<Rightarrow>
               (let (rangeStart, ranges) = rangeLoop rest first first [];
                    lastCodepoint = last (first # rest)
                in join '', '' (ranges @ [rangeText rangeStart lastCodepoint]))))"

section \<open>filename.ts\<close>

datatype Format = Woff | Woff2

fun formatString :: "Format \<Rightarrow> string" where
  "formatString Woff = ''woff''"
| "formatString Woff2 = ''woff2''"

text \<open>
  A \<open>FontStyle\<close> is the string \<open>normal\<close>, \<open>italic\<close> or \<open>oblique <angle>deg\<close>.
\<close>

type_synonym FontStyle = string

definition normalizeStyleForFilename :: "FontStyle \<Rightarrow> string" where
  "normalizeStyleForFilename style =
     (if startsWith style ''oblique '' then ''italic'' else style)"

definition generateStaticFilename ::
  "string \<Rightarrow> string \<Rightarrow> int \<Rightarrow> FontStyle \<Rightarrow> nat \<Rightarrow> Format \<Rightarrow> string" where
  "generateStaticFilename familyId subsetName weight style sliceIndex format =
     (let displayStyle = normalizeStyleForFilename style;
          sliceSuffix = (if sliceIndex > 0 then ''-'' @ natToString sliceIndex else '''')
      in familyId @ ''-'' @ subsetName @ ''-'' @ numberToString weight @ ''-'' @ displayStyle
           @ sliceSuffix @ ''.'' @ formatString format)"

definition generateVariableFilename ::
  "string \<Rightarrow> string \<Rightarrow> string \<Rightarrow> FontStyle \<Rightarrow> nat \<Rightarrow> Format \<Rightarrow> string" where
  "generateVariableFilename familyId subsetName axisKey style sliceIndex format =
     (let displayStyle = normalizeStyleForFilename style;
          sliceSuffix = (if sliceIndex > 0 then ''-'' @ natToString sliceIndex else '''')
      in familyId @ ''-'' @ subsetName @ ''-'' @ axisKey @ ''-'' @ displayStyle
           @ sliceSuffix @ ''.'' @ formatString format)"

section \<open>types.ts\<close>

type_synonym bytes = "char list"

record VariableFontAxis =
  axisMin :: int
  axisMax :: int

text \<open>
  A \<open>VariableAxisConfig\<close> object, as the list of its own properties in the order in
  which \<open>Object.entries\<close> and \<open>for ... in\<close> enumerate them. A property may hold
  \<open>undefined\<close> (\<open>None\<close>). \<open>axisOf cfg tag\<close> is the property read \<open>cfg[tag]\<close>.
\<close>

type_synonym VariableAxisConfig = "(string \<times> VariableFontAxis option) list"

definition axisOf :: "VariableAxisConfig \<Rightarrow> string \<Rightarrow> VariableFontAxis option" where
  "axisOf cfg tag = (case map_of cfg tag of Some (Some a) \<Rightarrow> Some a | _ \<Rightarrow> None)"

record SubsetSlice =
  slice_index :: nat
  slice_codepoints :: "nat list"

datatype SubsetDefinition =
    RangeSubset string string "nat list"
  | SlicedSubset string "SubsetSlice list"

record BaseFontConfig =
  cfg_family :: string
  cfg_subsets :: "string list"
  cfg_formats :: "Format list"
  cfg_featureSettings :: "(string \<times> bool) list"
  cfg_subsetSources :: "string \<rightharpoonup> string"

text \<open>
  \<open>StaticConfig base weights styles\<close> and \<open>VariableConfig base variable axisKey\<close>;
  an optional property that is absent is \<open>None\<close>.
\<close>

datatype FontBuildConfig =
    StaticConfig BaseFontConfig "int list option" "FontStyle list option"
  | VariableConfig BaseFontConfig VariableAxisConfig "string option"

fun baseConfig :: "FontBuildConfig \<Rightarrow> BaseFontConfig" where
  "baseConfig (StaticConfig b _ _) = b"
| "baseConfig (VariableConfig b _ _) = b"

record OutputAsset =
  asset_filename :: string
  asset_content :: bytes

record FontPackage =
  pkg_css :: "OutputAsset list"
  pkg_fonts :: "OutputAsset list"

record VariantBase =
  pv_weight :: int
  pv_style :: FontStyle
  pv_subset :: string
  pv_sliceIndex :: nat
  pv_filename :: string
  pv_content :: bytes

text \<open>\<open>VariableVariant base variable axisKey\<close>.\<close>

datatype ProcessedVariant =
    StaticVariant VariantBase
  | VariableVariant VariantBase VariableAxisConfig string

fun variantBase :: "ProcessedVariant \<Rightarrow> VariantBase" where
  "variantBase (StaticVariant b) = b"
| "variantBase (VariableVariant b _ _) = b"

fun isVariableVariant :: "ProcessedVariant \<Rightarrow> bool" where
  "isVariableVariant (StaticVariant _) = False"
| "isVariableVariant (VariableVariant _ _ _) = True"

section \<open>subsets.ts\<close>

definition isHexDigit :: "char \<Rightarrow> bool" where
  "isHexDigit c = (c \<in> set ''0123456789abcdefABCDEF'')"

definition isDigit :: "char \<Rightarrow> bool" where
  "isDigit c = (c \<in> set ''0123456789'')"

definition hexDigitValue :: "char \<Rightarrow> nat" where
  "hexDigitValue c =
     (let n = (of_char c :: nat)
      in if 48 \<le> n \<and> n \<le> 57 then n - 48
         else if 97 \<le> n \<and> n \<le> 102 then n - 87
         else n - 55)"

text \<open>
  \<open>parseInt(token, 16)\<close> for a token that starts with \<open>0x\<close>: the prefix is skipped and
  the longest run of hexadecimal digits is read. With no digit the result is \<open>NaN\<close>,
  here \<open>None\<close>.
\<close>

definition parseInt16 :: "string \<Rightarrow> nat option" where
  "parseInt16 token =
     (let digits = takeWhile isHexDigit (drop 2 token)
      in if digits = [] then None
         else Some (foldl (\<lambda>acc c. acc * 16 + hexDigitValue c) 0 digits))"

text \<open>\<open>parseInt(digits, 10)\<close> for a non-empty string of decimal digits.\<close>

definition parseInt10 :: "string \<Rightarrow> nat" where
  "parseInt10 digits = foldl (\<lambda>acc c. acc * 10 + hexDigitValue c) 0 digits"

definition parseNamFile :: "string \<Rightarrow> nat option list" where
  "parseNamFile content =
     map (\<lambda>line. parseInt16 (hd (splitOn CHR '' '' line)))
       (filter (\<lambda>line. startsWith line ''0x'')
          (map trim (splitOn CHR 0x0A content)))"

text \<open>\<open>s.includes(p)\<close>.\<close>

fun stringIncludes :: "string \<Rightarrow> string \<Rightarrow> bool" where
  "stringIncludes [] p = (p = [])"
| "stringIncludes (c # cs) p = (prefix p (c # cs) \<or> stringIncludes cs p)"

text \<open>
  \<open>line.match(/codepoints: (\d+)/)\<close>: the leftmost place where \<open>codepoints: \<close> is
  followed by a digit; the group is the longest run of digits there.
\<close>

fun matchCodepoints :: "string \<Rightarrow> string option" where
  "matchCodepoints [] = None"
| "matchCodepoints (c # cs) =
     (let digits = takeWhile isDigit (drop 12 (c # cs))
      in if prefix ''codepoints: '' (c # cs) \<and> digits \<noteq> [] then Some digits
         else matchCodepoints cs)"

text \<open>
  The body of the loop of \<open>parseSlicingStrategy\<close> on one line, on the variables
  \<open>slices\<close> and \<open>currentSlice\<close> (\<open>None\<close> for \<open>null\<close>). An array, also an empty one, is
  truthy.
\<close>

definition slicingStep ::
  "nat list list \<times> nat list option \<Rightarrow> string \<Rightarrow> nat list list \<times> nat list option" where
  "slicingStep st line =
     (let (slices, currentSlice) = st;
          trimmedLine = trim line
      in if trimmedLine = ''subsets {'' then
           ((case currentSlice of Some c \<Rightarrow> slices @ [c] | None \<Rightarrow> slices), Some [])
         else if startsWith trimmedLine ''codepoints:'' then
           (case (matchCodepoints trimmedLine, currentSlice) of
              (Some digits, Some c) \<Rightarrow> (slices, Some (c @ [parseInt10 digits]))
            | _ \<Rightarrow> (slices, currentSlice))
         else if trimmedLine = ''}'' then
           (case currentSlice of
              Some c \<Rightarrow> if length c > 0 then (slices @ [c], None) else (slices, currentSlice)
            | None \<Rightarrow> (slices, currentSlice))
         else (slices, currentSlice))"

text \<open>The slices pushed by the loop, in the order in which they were pushed.\<close>

definition emittedSlices :: "string \<Rightarrow> nat list list" where
  "emittedSlices fileContent =
     fst (foldl slicingStep ([], None) (splitOn CHR 0x0A fileContent))"

definition parseSlicingStrategy :: "string \<Rightarrow> nat list list" where
  "parseSlicingStrategy fileContent = rev (emittedSlices fileContent)"

text \<open>
  The body of the loop of \<open>generateSubsetData\<close> for one subset name, on the warnings
  logged so far and the map built so far. The result is \<open>None\<close> where a line of a flat
  codepoint list parses to \<open>NaN\<close>: the order in which \<open>sort\<close> leaves an array that holds
  \<open>NaN\<close> is left to the engine, and the model does not follow the source there.
\<close>

definition subsetDataStep ::
  "FontBuildConfig \<Rightarrow> (string list \<times> (string \<rightharpoonup> SubsetDefinition)) option \<Rightarrow> string
     \<Rightarrow> (string list \<times> (string \<rightharpoonup> SubsetDefinition)) option" where
  "subsetDataStep config acc name =
     (case acc of
        None \<Rightarrow> None
      | Some (warnings, subsetData) \<Rightarrow>
          (case cfg_subsetSources (baseConfig config) name of
             None \<Rightarrow>
               Some (warnings @ [''WARN: No subset file content provided for '' @ name],
                     subsetData)
           | Some fileContent \<Rightarrow>
               if fileContent = [] then
                 Some (warnings @ [''WARN: No subset file content provided for '' @ name],
                       subsetData)
               else if stringIncludes fileContent ''subsets {'' then
                 (let slices = parseSlicingStrategy fileContent
                  in Some (warnings,
                       subsetData(name \<mapsto> SlicedSubset name
                         (map (\<lambda>(i, codepoints).
                                 \<lparr>slice_index = i + 1, slice_codepoints = codepoints\<rparr>)
                            (enumerate 0 slices)))))
               else
                 (case those (parseNamFile fileContent) of
                    None \<Rightarrow> None
                  | Some codepoints \<Rightarrow>
                      (let unicodeRange = codepointsToRangeString (Some codepoints)
                       in Some (warnings,
                            subsetData(name \<mapsto> RangeSubset name unicodeRange codepoints))))))"

definition generateSubsetData ::
  "FontBuildConfig \<Rightarrow> (string list \<times> (string \<rightharpoonup> SubsetDefinition)) option" where
  "generateSubsetData config =
     foldl (subsetDataStep config) (Some ([], Map.empty)) (cfg_subsets (baseConfig config))"

section \<open>css.ts\<close>

definition quote :: string where
  "quote = [CHR 0x27]"

definition newline :: string where
  "newline = [CHR 0x0A]"

definition generateFontSrc :: "ProcessedVariant list \<Rightarrow> string" where
  "generateFontSrc variants =
     (case variants of
        [] \<Rightarrow> ''''
      | firstVariant # _ \<Rightarrow>
          (let isVariable = isVariableVariant firstVariant
           in join '', ''
                (map (\<lambda>variant.
                        let url = ''./files/'' @ pv_filename (variantBase variant);
                            format =
                              (if endsWith (pv_filename (variantBase variant)) ''woff2''
                               then (if isVariable then ''woff2-variations'' else ''woff2'')
                               else ''woff'')
                        in ''url('' @ url @ '') format('' @ quote @ format @ quote @ '')'')
                   variants)))"

text \<open>The \<open>unicodeRange\<close> that \<open>generateFontFace\<close> reads from the subset definition.\<close>

definition fontFaceUnicodeRange :: "SubsetDefinition \<Rightarrow> nat \<Rightarrow> string" where
  "fontFaceUnicodeRange subsetDef sliceIndex =
     (case subsetDef of
        RangeSubset _ unicodeRange _ \<Rightarrow> unicodeRange
      | SlicedSubset _ slices \<Rightarrow>
          (case find (\<lambda>s. slice_index s = sliceIndex) slices of
             Some s \<Rightarrow> codepointsToRangeString (Some (slice_codepoints s))
           | None \<Rightarrow> ''''))"

text \<open>
  The \<open>weight\<close>, \<open>style\<close> and \<open>stretch\<close> that \<open>generateFontFace\<close> computes for a
  variable variant from its axis configuration.
\<close>

definition variableWeight :: "VariableAxisConfig \<Rightarrow> string" where
  "variableWeight variable =
     (case axisOf variable ''wght'' of
        Some wght \<Rightarrow>
          (if axisMin wght = axisMax wght then numberToString (axisMin wght)
           else numberToString (axisMin wght) @ '' '' @ numberToString (axisMax wght))
      | None \<Rightarrow> (if length variable = 0 then ''100 900'' else ''400''))"

definition variableStyle :: "VariableAxisConfig \<Rightarrow> string" where
  "variableStyle variable =
     (case axisOf variable ''slnt'' of
        Some slnt \<Rightarrow>
          (if axisMin slnt \<noteq> 0 \<or> axisMax slnt \<noteq> 0 then
             (if axisMin slnt = axisMax slnt
              then ''oblique '' @ numberToString (abs (axisMin slnt)) @ ''deg''
              else ''oblique '' @ numberToString (abs (axisMax slnt)) @ ''deg ''
                     @ numberToString (abs (axisMin slnt)) @ ''deg'')
           else ''normal'')
      | None \<Rightarrow> ''normal'')"

definition variableStretch :: "VariableAxisConfig \<Rightarrow> string" where
  "variableStretch variable =
     (case axisOf variable ''wdth'' of
        Some wdth \<Rightarrow>
          newline @ ''  font-stretch: ''
            @ (if axisMin wdth = axisMax wdth then numberToString (axisMin wdth) @ ''%''
               else numberToString (axisMin wdth) @ ''% '' @ numberToString (axisMax wdth)
                      @ ''%'')
            @ '';''
      | None \<Rightarrow> '''')"

text \<open>The template string that \<open>generateFontFace\<close> returns.\<close>

definition fontFaceText ::
  "string \<Rightarrow> string \<Rightarrow> string \<Rightarrow> string \<Rightarrow> string \<Rightarrow> string \<Rightarrow> string \<Rightarrow> string" where
  "fontFaceText comment fontFamily style weight stretch src unicodeRange =
     ''/* '' @ comment @ '' */'' @ newline
     @ ''@font-face {'' @ newline
     @ ''  font-family: '' @ quote @ fontFamily @ quote @ '';'' @ newline
     @ ''  font-style: '' @ style @ '';'' @ newline
     @ ''  font-display: swap;'' @ newline
     @ ''  font-weight: '' @ weight @ '';'' @ stretch @ newline
     @ ''  src: '' @ src @ '';'' @ newline
     @ ''  unicode-range: '' @ unicodeRange @ '';'' @ newline
     @ ''}'' @ newline"

definition generateFontFace ::
  "string \<Rightarrow> ProcessedVariant list \<Rightarrow> SubsetDefinition \<Rightarrow> string" where
  "generateFontFace family variants subsetDef =
     (case variants of
        [] \<Rightarrow> ''''
      | firstVariant # _ \<Rightarrow>
          (let sliceIndex = pv_sliceIndex (variantBase firstVariant);
               unicodeRange = fontFaceUnicodeRange subsetDef sliceIndex
           in if unicodeRange = '''' then ''''
              else
                (let (style, weight, stretch, comment) =
                       (case firstVariant of
                          VariableVariant b variable axisKey \<Rightarrow>
                            (let weight = variableWeight variable;
                                 style = variableStyle variable;
                                 stretch = variableStretch variable;
                                 normalizedStyle =
                                   (if startsWith style ''oblique '' then ''italic'' else style)
                             in (style, weight, stretch,
                                 normalizeKebabCase family @ ''-'' @ pv_subset b @ ''-''
                                   @ axisKey @ ''-'' @ normalizedStyle))
                        | StaticVariant b \<Rightarrow>
                            (let style = pv_style b;
                                 weight = numberToString (pv_weight b);
                                 normalizedStyle =
                                   (if startsWith style ''oblique '' then ''italic'' else style)
                             in (style, weight, '''',
                                 normalizeKebabCase family @ ''-'' @ pv_subset b @ ''-''
                                   @ weight @ ''-'' @ normalizedStyle)));
                     comment' =
                       (if sliceIndex > 0 then comment @ ''-'' @ natToString sliceIndex
                        else comment);
                     src = generateFontSrc variants;
                     fontFamily =
                       (if isVariableVariant firstVariant then family @ '' Variable''
                        else family)
                 in fontFaceText comment' fontFamily style weight stretch src unicodeRange)))"

text \<open>
  A \<open>Map\<close> from keys to groups, as the list of its entries in insertion order;
  \<open>groupAdd\<close> is the \<open>get\<close>, \<open>push\<close>, \<open>set\<close> of the grouping loop of \<open>generateCSS\<close>.
\<close>

fun groupAdd ::
  "(string \<times> ProcessedVariant list) list \<Rightarrow> string \<Rightarrow> ProcessedVariant
     \<Rightarrow> (string \<times> ProcessedVariant list) list" where
  "groupAdd [] key variant = [(key, [variant])]"
| "groupAdd ((k, grp) # rest) key variant =
     (if k = key then (k, grp @ [variant]) # rest
      else (k, grp) # groupAdd rest key variant)"

definition groupVariants ::
  "ProcessedVariant list \<Rightarrow> (string \<times> ProcessedVariant list) list" where
  "groupVariants variants =
     foldl (\<lambda>groupedVariants variant.
              groupAdd groupedVariants
                (pv_subset (variantBase variant) @ ''-''
                   @ natToString (pv_sliceIndex (variantBase variant)))
                variant)
       [] variants"

definition generateCSS ::
  "string \<Rightarrow> ProcessedVariant list \<Rightarrow> (string \<rightharpoonup> SubsetDefinition) \<Rightarrow> string" where
  "generateCSS family variants subsets =
     foldl (\<lambda>css grp.
              (case grp of
                 [] \<Rightarrow> css
               | g # _ \<Rightarrow>
                   (case subsets (pv_subset (variantBase g)) of
                      Some subsetDef \<Rightarrow> css @ generateFontFace family grp subsetDef
                    | None \<Rightarrow> css)))
       '''' (map snd (groupVariants variants))"

definition generateStaticCSS ::
  "string \<Rightarrow> int \<Rightarrow> FontStyle \<Rightarrow> ProcessedVariant list \<Rightarrow> (string \<rightharpoonup> SubsetDefinition)
     \<Rightarrow> string" where
  "generateStaticCSS family weight style variants subsets =
     generateCSS family
       (filter (\<lambda>variant.
                  (case variant of
                     StaticVariant b \<Rightarrow> pv_weight b = weight \<and> pv_style b = style
                   | VariableVariant _ _ _ \<Rightarrow> False))
          variants)
       subsets"

definition generateVariableCSS ::
  "string \<Rightarrow> ProcessedVariant list \<Rightarrow> (string \<rightharpoonup> SubsetDefinition) \<Rightarrow> string" where
  "generateVariableCSS family variants subsets =
     generateCSS family (filter isVariableVariant variants) subsets"

section \<open>The font engine\<close>

text \<open>
  The font loader and the compressor are libraries outside the repository. A font
  reference carries its declared style values, each a single number or a variable range
  \<open>VariableValue min defaultValue max\<close>; \<open>font_id\<close> tells the loaded fonts apart.
  The calls into the libraries are the fields of an environment: each returns its result
  or the value it throws. The environment also holds the timing of the concurrent jobs,
  \<open>env_finishTime\<close>.
\<close>

datatype StyleValue = SingleValue int | VariableValue int int int

record StyleValues =
  sv_weight :: StyleValue
  sv_width :: StyleValue
  sv_italic :: StyleValue
  sv_slant :: StyleValue

record FontRef =
  font_id :: nat
  font_styleValues :: StyleValues

text \<open>\<open>VariableAxisSetting tag min defaultValue max\<close> and \<open>SingleAxisSetting tag value\<close>.\<close>

datatype SubsetAxisSetting =
    VariableAxisSetting string int int int
  | SingleAxisSetting string int

record SubsetSettings =
  ss_axisValues :: "SubsetAxisSetting list"
  ss_features :: "(string \<times> bool) list"
  ss_named :: "string list"
  ss_custom :: "nat list"

datatype error = Thrown string

record Env =
  env_loadFonts :: "bytes list \<Rightarrow> error + FontRef list"
  env_subset :: "FontRef \<Rightarrow> SubsetSettings \<Rightarrow> error + bytes"
  env_compressFromTTF :: "bytes \<Rightarrow> Format \<Rightarrow> nat \<Rightarrow> error + bytes"
  env_finishTime :: "nat \<Rightarrow> nat"

section \<open>processor.ts\<close>

record ProcessingContext =
  ctx_familyId :: string
  ctx_config :: FontBuildConfig
  ctx_subsets :: "string \<rightharpoonup> SubsetDefinition"

record ProcessingJob =
  job_font :: FontRef
  job_subsetName :: string
  job_codepoints :: "nat list"
  job_sliceIndex :: nat
  job_weight :: int
  job_style :: FontStyle
  job_format :: Format
  job_targetWeight :: "int option"
  job_variableConfig :: "VariableAxisConfig option"
  job_axisKey :: "string option"

text \<open>A line written by \<open>console.warn\<close>: the message, and the error logged with it.\<close>

datatype LogEntry = Warn string | WarnError string error

fun extractStyleValue :: "StyleValue \<Rightarrow> int" where
  "extractStyleValue (SingleValue v) = v"
| "extractStyleValue (VariableValue mn defaultValue mx) = defaultValue"

text \<open>
  On integers \<open>Math.round(Math.abs(slantValue) * 10) / 10\<close> is the absolute value.
\<close>

definition extractFontStyle :: "FontRef \<Rightarrow> int \<times> FontStyle" where
  "extractFontStyle font =
     (let weight = extractStyleValue (sv_weight (font_styleValues font));
          italicValue = extractStyleValue (sv_italic (font_styleValues font));
          slantValue = extractStyleValue (sv_slant (font_styleValues font));
          style =
            (if italicValue > 0 then ''italic''
             else if slantValue \<noteq> 0
               then ''oblique '' @ numberToString (abs slantValue) @ ''deg''
             else ''normal'')
      in (weight, style))"

text \<open>
  \<open>config.type === 'static' && config.weights?.length\<close>, and the same for the styles:
  the configured list when the test is truthy.
\<close>

fun configWeights :: "FontBuildConfig \<Rightarrow> int list option" where
  "configWeights (StaticConfig _ (Some ws) _) = (if length ws > 0 then Some ws else None)"
| "configWeights _ = None"

fun configStyles :: "FontBuildConfig \<Rightarrow> FontStyle list option" where
  "configStyles (StaticConfig _ _ (Some ss)) = (if length ss > 0 then Some ss else None)"
| "configStyles _ = None"

text \<open>
  The body of the loop of \<open>determineProcessingTargets\<close> over the fonts, on the two sets
  \<open>availableWeights\<close> and \<open>availableStyles\<close>.
\<close>

definition targetsStep ::
  "int list \<times> FontStyle list \<Rightarrow> FontRef \<Rightarrow> int list \<times> FontStyle list" where
  "targetsStep st font =
     (let (availableWeights, availableStyles) = st;
          availableStyles' = setAdd availableStyles (snd (extractFontStyle font))
      in (case sv_weight (font_styleValues font) of
            SingleValue v \<Rightarrow> (setAdd availableWeights v, availableStyles')
          | VariableValue mn defaultValue mx \<Rightarrow>
              (let w1 = setAdd (setAdd availableWeights mn) mx;
                   w2 = (if defaultValue \<noteq> 0 then setAdd w1 defaultValue else w1);
                   w3 = foldl (\<lambda>ws w. if w \<ge> mn \<and> w \<le> mx then setAdd ws w else ws) w2
                          [100, 200, 300, 400, 500, 600, 700, 800, 900, 1000]
               in (w3, availableStyles'))))"

definition determineProcessingTargets ::
  "FontRef list \<Rightarrow> FontBuildConfig \<Rightarrow> int list \<times> FontStyle list" where
  "determineProcessingTargets fontRefs config =
     (case (configWeights config, configStyles config) of
        (Some ws, Some ss) \<Rightarrow> (ws, ss)
      | _ \<Rightarrow>
          (let (availableWeights, availableStyles) = foldl targetsStep ([], []) fontRefs
           in ((case configWeights config of
                  Some ws \<Rightarrow> ws
                | None \<Rightarrow> sort availableWeights),
               (case configStyles config of
                  Some ss \<Rightarrow> ss
                | None \<Rightarrow> availableStyles))))"

definition determineAxisKey :: "VariableAxisConfig \<Rightarrow> string option \<Rightarrow> string" where
  "determineAxisKey variableConfig configAxisKey =
     (case (case configAxisKey of
              Some k \<Rightarrow> (if k \<noteq> [] then Some k else None)
            | None \<Rightarrow> None) of
        Some k \<Rightarrow> toLowerCase k
      | None \<Rightarrow>
          (let present = map fst (filter (\<lambda>(axis, a). a \<noteq> None) variableConfig);
               isStandard = (\<lambda>axis. axis \<in> set [''wght'', ''wdth'', ''slnt'', ''opsz'', ''ital'']);
               standard = filter isStandard present;
               custom = filter (\<lambda>axis. \<not> isStandard axis) present
           in (case (standard, custom) of
                 ([], []) \<Rightarrow> ''wght''
               | (_, c # cs) \<Rightarrow> (if length standard > 0 \<or> length custom > 1 then ''full'' else c)
               | (s # ss, []) \<Rightarrow> (if length standard > 1 then ''standard'' else s))))"

text \<open>
  \<open>standardAxisPropertyMap[tag]\<close> followed by \<open>font.styleValues[styleKey]\<close>. A tag that
  names a property inherited from \<open>Object.prototype\<close> reads a value that is no key of the
  style values, which leaves \<open>styleValue\<close> undefined as for an unknown tag.
\<close>

definition standardAxisStyleValue :: "FontRef \<Rightarrow> string \<Rightarrow> StyleValue option" where
  "standardAxisStyleValue font tag =
     (if tag = ''wght'' then Some (sv_weight (font_styleValues font))
      else if tag = ''slnt'' then Some (sv_slant (font_styleValues font))
      else if tag = ''wdth'' then Some (sv_width (font_styleValues font))
      else if tag = ''ital'' then Some (sv_italic (font_styleValues font))
      else None)"

definition buildAxisValues ::
  "FontRef \<Rightarrow> VariableAxisConfig option \<Rightarrow> int option \<Rightarrow> SubsetAxisSetting list" where
  "buildAxisValues font variableConfig targetWeight =
     (case variableConfig of
        Some cfg \<Rightarrow>
          concat (map (\<lambda>(tag, config).
                         (case config of
                            None \<Rightarrow> []
                          | Some c \<Rightarrow>
                              (let defaultValue =
                                     (case standardAxisStyleValue font tag of
                                        Some (VariableValue mn d mx) \<Rightarrow> d
                                      | _ \<Rightarrow> axisMin c)
                               in [VariableAxisSetting tag (axisMin c) defaultValue
                                     (axisMax c)])))
                    cfg)
      | None \<Rightarrow>
          (case (targetWeight, sv_weight (font_styleValues font)) of
             (Some w, VariableValue _ _ _) \<Rightarrow>
               (if w \<noteq> 0 then [SingleAxisSetting ''wght'' w] else [])
           | _ \<Rightarrow> []))"

text \<open>\<open>variableConfig && axisKey\<close>: an object is truthy, the empty string is not.\<close>

definition variableTag ::
  "VariableAxisConfig option \<Rightarrow> string option \<Rightarrow> (VariableAxisConfig \<times> string) option" where
  "variableTag variableConfig axisKey =
     (case (variableConfig, axisKey) of
        (Some cfg, Some k) \<Rightarrow> (if k \<noteq> [] then Some (cfg, k) else None)
      | _ \<Rightarrow> None)"

definition processSlice ::
  "Env \<Rightarrow> ProcessingContext \<Rightarrow> FontRef \<Rightarrow> string \<Rightarrow> nat list \<Rightarrow> nat \<Rightarrow> int \<Rightarrow> FontStyle
     \<Rightarrow> Format \<Rightarrow> int option \<Rightarrow> VariableAxisConfig option \<Rightarrow> string option
     \<Rightarrow> error + ProcessedVariant" where
  "processSlice env ctx font subsetName codepoints sliceIndex weight style format
     targetWeight variableConfig axisKey =
     (let axisValues = buildAxisValues font variableConfig targetWeight
      in (case env_subset env font
                \<lparr>ss_axisValues = axisValues,
                 ss_features = cfg_featureSettings (baseConfig (ctx_config ctx)),
                 ss_named = [], ss_custom = codepoints\<rparr> of
            Inl e \<Rightarrow> Inl e
          | Inr subsettedFont \<Rightarrow>
              (case env_compressFromTTF env subsettedFont format 11 of
                 Inl e \<Rightarrow> Inl e
               | Inr content \<Rightarrow>
                   (case variableTag variableConfig axisKey of
                      Some (cfg, k) \<Rightarrow>
                        Inr (VariableVariant
                               \<lparr>pv_weight = weight, pv_style = style, pv_subset = subsetName,
                                pv_sliceIndex = sliceIndex,
                                pv_filename =
                                  generateVariableFilename (ctx_familyId ctx) subsetName k
                                    style sliceIndex format,
                                pv_content = content\<rparr>
                               cfg k)
                    | None \<Rightarrow>
                        Inr (StaticVariant
                               \<lparr>pv_weight = weight, pv_style = style, pv_subset = subsetName,
                                pv_sliceIndex = sliceIndex,
                                pv_filename =
                                  generateStaticFilename (ctx_familyId ctx) subsetName weight
                                    style sliceIndex format,
                                pv_content = content\<rparr>)))))"

definition createJobsForSubset ::
  "FontRef \<Rightarrow> string \<Rightarrow> SubsetDefinition \<Rightarrow> int \<Rightarrow> FontStyle \<Rightarrow> Format list \<Rightarrow> int option
     \<Rightarrow> VariableAxisConfig option \<Rightarrow> string option \<Rightarrow> ProcessingJob list" where
  "createJobsForSubset font subsetName subsetDef weight style formats targetWeight
     variableConfig axisKey =
     (let sliceJobs =
            (case subsetDef of
               SlicedSubset _ slices \<Rightarrow>
                 map (\<lambda>slice. (slice_codepoints slice, slice_index slice)) slices
             | RangeSubset _ _ codepoints \<Rightarrow> [(codepoints, 0)])
      in concat (map (\<lambda>(codepoints, sliceIndex).
                        map (\<lambda>format.
                               \<lparr>job_font = font, job_subsetName = subsetName,
                                job_codepoints = codepoints, job_sliceIndex = sliceIndex,
                                job_weight = weight, job_style = style, job_format = format,
                                job_targetWeight = targetWeight,
                                job_variableConfig = variableConfig,
                                job_axisKey = axisKey\<rparr>)
                          formats)
                   sliceJobs))"

text \<open>\<open>new TextEncoder().encode(s)\<close>: UTF-8, for code units below 256.\<close>

definition textEncode :: "string \<Rightarrow> bytes" where
  "textEncode s =
     concat (map (\<lambda>c. let n = (of_char c :: nat)
                       in if n < 128 then [c]
                          else [char_of (192 + n div 64), char_of (128 + n mod 64)])
               s)"

text \<open>
  The callback of the \<open>reduce\<close> that picks the default weight, and the \<open>reduce\<close> itself,
  which starts from the first element of a non-empty array.
\<close>

definition closerTo400 :: "int \<Rightarrow> int \<Rightarrow> int" where
  "closerTo400 closest current =
     (let closestDiff = abs (closest - 400);
          currentDiff = abs (current - 400)
      in if currentDiff < closestDiff \<or> (currentDiff = closestDiff \<and> current > closest)
         then current else closest)"

fun defaultWeightOf :: "int list \<Rightarrow> int option" where
  "defaultWeightOf [] = None"
| "defaultWeightOf (w # ws) = Some (foldl closerTo400 w ws)"

text \<open>
  The two nested loops of \<open>generateAllCssAssets\<close> over the weights and the styles of a
  static build: the stylesheets that are not empty, in the order of the loops.
\<close>

definition staticCssAssets ::
  "string \<Rightarrow> (string \<rightharpoonup> SubsetDefinition) \<Rightarrow> ProcessedVariant list \<Rightarrow> int list
     \<Rightarrow> FontStyle list \<Rightarrow> OutputAsset list" where
  "staticCssAssets family subsets allVariants weightsToProcess stylesToProcess =
     concat (map (\<lambda>weight.
       concat (map (\<lambda>style.
         (let cssContent = generateStaticCSS family weight style allVariants subsets
          in if cssContent \<noteq> ''''
             then [\<lparr>asset_filename =
                      (if style = ''normal'' then numberToString weight @ ''.css''
                       else numberToString weight @ ''-italic.css''),
                     asset_content = textEncode cssContent\<rparr>]
             else []))
         stylesToProcess))
       weightsToProcess)"

definition generateAllCssAssets ::
  "ProcessingContext \<Rightarrow> ProcessedVariant list \<Rightarrow> int list \<Rightarrow> FontStyle list
     \<Rightarrow> OutputAsset list" where
  "generateAllCssAssets ctx allVariants weightsToProcess stylesToProcess =
     (case ctx_config ctx of
        VariableConfig b _ _ \<Rightarrow>
          (let cssContent = generateVariableCSS (cfg_family b) allVariants (ctx_subsets ctx)
           in if cssContent \<noteq> ''''
              then [\<lparr>asset_filename = ''index.css'', asset_content = textEncode cssContent\<rparr>]
              else [])
      | StaticConfig b _ _ \<Rightarrow>
          (let cssAssets =
                 staticCssAssets (cfg_family b) (ctx_subsets ctx) allVariants weightsToProcess
                   stylesToProcess
           in (case defaultWeightOf weightsToProcess of
                 None \<Rightarrow> cssAssets
               | Some defaultWeight \<Rightarrow>
                   (case find (\<lambda>asset. asset_filename asset
                                         = numberToString defaultWeight @ ''.css'')
                           cssAssets of
                      Some indexCss \<Rightarrow>
                        cssAssets @ [\<lparr>asset_filename = ''index.css'',
                                       asset_content = asset_content indexCss\<rparr>]
                    | None \<Rightarrow> cssAssets))))"

text \<open>
  The callback of \<open>fontRefs.flatMap\<close> in \<open>buildFont\<close>: the jobs of one font.
\<close>

definition jobsForFont ::
  "FontBuildConfig \<Rightarrow> (string \<rightharpoonup> SubsetDefinition) \<Rightarrow> int list \<Rightarrow> FontStyle list
     \<Rightarrow> VariableAxisConfig option \<Rightarrow> string option \<Rightarrow> FontRef \<Rightarrow> ProcessingJob list" where
  "jobsForFont config subsets weightsToProcess stylesToProcess variableConfig
     resolvedAxisKey font =
     (let (fontWeight, fontStyle) = extractFontStyle font
      in if fontStyle \<notin> set stylesToProcess then []
         else
           (let applicableWeights =
                  (case config of
                     VariableConfig _ _ _ \<Rightarrow> [(fontWeight, fontStyle, None)]
                   | StaticConfig _ _ _ \<Rightarrow>
                       map (\<lambda>targetWeight. (targetWeight, fontStyle, Some targetWeight))
                         (filter (\<lambda>w. (case sv_weight (font_styleValues font) of
                                          VariableValue _ _ _ \<Rightarrow> True
                                        | SingleValue v \<Rightarrow> v = w))
                            weightsToProcess))
            in concat (map (\<lambda>(weight, style, targetWeight).
                 concat (map (\<lambda>subsetName.
                   (case subsets subsetName of
                      Some subsetDef \<Rightarrow>
                        createJobsForSubset font subsetName subsetDef weight style
                          (cfg_formats (baseConfig config)) targetWeight variableConfig
                          resolvedAxisKey
                    | None \<Rightarrow> []))
                   (cfg_subsets (baseConfig config))))
                 applicableWeights)))"

text \<open>
  \<open>processJob\<close> returns the variant, or \<open>null\<close> with the warning it logged.
\<close>

definition processJob ::
  "Env \<Rightarrow> ProcessingContext \<Rightarrow> ProcessingJob \<Rightarrow> ProcessedVariant option \<times> LogEntry list" where
  "processJob env processingCtx job =
     (case processSlice env processingCtx (job_font job) (job_subsetName job)
             (job_codepoints job) (job_sliceIndex job) (job_weight job) (job_style job)
             (job_format job) (job_targetWeight job) (job_variableConfig job)
             (job_axisKey job) of
        Inr variant \<Rightarrow> (Some variant, [])
      | Inl e \<Rightarrow>
          (let sliceInfo =
                 (if job_sliceIndex job > 0 then '' slice '' @ natToString (job_sliceIndex job)
                  else '''')
           in (None,
               [WarnError
                  (''Failed to process ''
                     @ (if job_variableConfig job \<noteq> None then ''variable'' else ''static'')
                     @ '' font'' @ sliceInfo @ '' for '' @ job_subsetName job
                     @ '' ('' @ formatString (job_format job) @ ''):'')
                  e])))"

text \<open>
  The jobs run concurrently: \<open>mapConcur\<close> starts them all, and
  \<open>reduceConcur(toArray())\<close> collects the result of each job when the job completes.
  The results, and the warnings that the failed jobs log, come in the order of
  completion, which the timing of the engine decides: \<open>env_finishTime env i\<close> is the
  time at which the job at position \<open>i\<close> of the plan completes. Results that arrive at
  the same time are taken in the order of the plan.
\<close>

definition completionOrder :: "Env \<Rightarrow> 'a list \<Rightarrow> 'a list" where
  "completionOrder env results =
     map snd (sort_key (\<lambda>(i, r). env_finishTime env i) (enumerate 0 results))"

text \<open>
  \<open>runJobs\<close> is the pipeline and the filter that follow \<open>processJob\<close>: the variants
  that are not \<open>null\<close>, and the warnings, both in the order of completion.
\<close>

definition runJobs ::
  "Env \<Rightarrow> ProcessingContext \<Rightarrow> ProcessingJob list \<Rightarrow> ProcessedVariant list \<times> LogEntry list" where
  "runJobs env processingCtx allProcessingJobs =
     (let results = completionOrder env (map (processJob env processingCtx) allProcessingJobs)
      in (concat (map (\<lambda>(v, _). case v of Some variant \<Rightarrow> [variant] | None \<Rightarrow> []) results),
          concat (map snd results)))"

text \<open>
  The list \<open>allProcessingJobs\<close> of \<open>buildFont\<close>, with the axis configuration and the
  axis key that \<open>buildFont\<close> resolves once for a variable build.
\<close>

definition allProcessingJobs ::
  "FontRef list \<Rightarrow> FontBuildConfig \<Rightarrow> (string \<rightharpoonup> SubsetDefinition) \<Rightarrow> int list
     \<Rightarrow> FontStyle list \<Rightarrow> ProcessingJob list" where
  "allProcessingJobs fontRefs config subsets weightsToProcess stylesToProcess =
     (let variableConfig =
            (case config of
               VariableConfig _ variable _ \<Rightarrow> Some variable
             | StaticConfig _ _ _ \<Rightarrow> None);
          resolvedAxisKey =
            (case config of
               VariableConfig _ variable axisKey \<Rightarrow> Some (determineAxisKey variable axisKey)
             | StaticConfig _ _ _ \<Rightarrow> None)
      in concat (map (jobsForFont config subsets weightsToProcess stylesToProcess
                        variableConfig resolvedAxisKey)
                   fontRefs))"

text \<open>The font asset that \<open>buildFont\<close> makes of a variant.\<close>

definition fontAsset :: "ProcessedVariant \<Rightarrow> OutputAsset" where
  "fontAsset variant =
     \<lparr>asset_filename = ''files/'' @ pv_filename (variantBase variant),
      asset_content = pv_content (variantBase variant)\<rparr>"

text \<open>
  \<open>buildFont\<close> returns the package with the warnings logged on the way, or the error
  that \<open>loadFonts\<close> throws. The result is \<open>None\<close> where \<open>generateSubsetData\<close> is.
\<close>

definition buildFont ::
  "Env \<Rightarrow> bytes list \<Rightarrow> FontBuildConfig \<Rightarrow> (error + LogEntry list \<times> FontPackage) option" where
  "buildFont env fontBuffers config =
     (case env_loadFonts env fontBuffers of
        Inl e \<Rightarrow> Some (Inl e)
      | Inr fontRefs \<Rightarrow>
          (case generateSubsetData config of
             None \<Rightarrow> None
           | Some (warnings, subsets) \<Rightarrow>
               (let familyId = normalizeKebabCase (cfg_family (baseConfig config));
                    processingCtx =
                      \<lparr>ctx_familyId = familyId, ctx_config = config, ctx_subsets = subsets\<rparr>;
                    (weightsToProcess, stylesToProcess) =
                      determineProcessingTargets fontRefs config;
                    jobs =
                      allProcessingJobs fontRefs config subsets weightsToProcess
                        stylesToProcess;
                    (allVariants, jobWarnings) = runJobs env processingCtx jobs;
                    cssAssets =
                      generateAllCssAssets processingCtx allVariants weightsToProcess
                        stylesToProcess;
                    fontAssets = map fontAsset allVariants
                in Some (Inr (map Warn warnings @ jobWarnings,
                              \<lparr>pkg_css = cssAssets, pkg_fonts = fontAssets\<rparr>)))))"

section \<open>Definitions of the specification\<close>

text \<open>
  The words of the specification for the unicode-range string: \<open>runs\<close> is the
  ascending list of the maximal contiguous runs of the set \<open>S\<close>, each run given by its
  first and its last codepoint.
\<close>

definition isRunList :: "nat set \<Rightarrow> (nat \<times> nat) list \<Rightarrow> bool" where
  "isRunList S runs \<longleftrightarrow>
     (\<forall>(a, b) \<in> set runs. a \<le> b \<and> {a..b} \<subseteq> S \<and> (a = 0 \<or> a - 1 \<notin> S) \<and> b + 1 \<notin> S)
     \<and> (\<Union>(a, b) \<in> set runs. {a..b}) = S
     \<and> sorted_wrt (\<lambda>(a, b) (c, d). b < c) runs"

text \<open>
  The variants and the warnings that the given jobs produce, each job taken by itself,
  in the order of the list.
\<close>

definition variantsOf ::
  "Env \<Rightarrow> ProcessingContext \<Rightarrow> ProcessingJob list \<Rightarrow> ProcessedVariant list" where
  "variantsOf env ctx jobs =
     concat (map (\<lambda>job. case fst (processJob env ctx job) of
                            Some variant \<Rightarrow> [variant]
                          | None \<Rightarrow> [])
               jobs)"

definition warningsOf ::
  "Env \<Rightarrow> ProcessingContext \<Rightarrow> ProcessingJob list \<Rightarrow> LogEntry list" where
  "warningsOf env ctx jobs = concat (map (\<lambda>job. snd (processJob env ctx job)) jobs)"

text \<open>
  The words of the specification for a sliced subset source. A block that holds the
  given codepoints is, line by line and without the white space around each line, an
  opening line \<open>subsets {\<close>, one line \<open>codepoints: <n>\<close> for each codepoint, and a
  closing line \<open>}\<close>. A source text lists the given blocks when its lines are these
  blocks one after the other, in this order, between a header and a footer that open no
  block (such as the lines of a \<open>SlicingStrategy { ... }\<close> wrapper).
\<close>

definition blockLines :: "nat list \<Rightarrow> string list" where
  "blockLines codepoints =
     ''subsets {'' # map (\<lambda>c. ''codepoints: '' @ natToString c) codepoints @ [''}'']"

definition listsBlocks :: "string \<Rightarrow> nat list list \<Rightarrow> bool" where
  "listsBlocks fileContent blocks \<longleftrightarrow>
     (\<exists>header body footer.
        splitOn CHR 0x0A fileContent = header @ body @ footer
        \<and> (\<forall>line \<in> set (header @ footer). trim line \<noteq> ''subsets {'')
        \<and> map trim body = concat (map blockLines blocks))"

text \<open>
  The configurations on which the model follows the source: in every requested flat
  codepoint list, each line that starts with \<open>0x\<close> goes on with a hexadecimal digit,
  so that no line parses to \<open>NaN\<close>.
\<close>

definition flatSourcesParse :: "FontBuildConfig \<Rightarrow> bool" where
  "flatSourcesParse config \<longleftrightarrow>
     (\<forall>name \<in> set (cfg_subsets (baseConfig config)).
        case cfg_subsetSources (baseConfig config) name of
          None \<Rightarrow> True
        | Some fileContent \<Rightarrow>
            fileContent = [] \<or> stringIncludes fileContent ''subsets {''
            \<or> None \<notin> set (parseNamFile fileContent))"

text \<open>
  The words of the specification for the inferred weights: a font of fixed weight gives
  its single value; a font of variable weight gives its minimum, its maximum, its
  declared default when that is not zero, and every multiple of 100 between 100 and 1000
  that lies within the minimum and the maximum.
\<close>

fun declaredWeights :: "StyleValue \<Rightarrow> int set" where
  "declaredWeights (SingleValue v) = {v}"
| "declaredWeights (VariableValue mn defaultValue mx) =
     {mn, mx} \<union> (if defaultValue \<noteq> 0 then {defaultValue} else {})
       \<union> {w. 100 dvd w \<and> 100 \<le> w \<and> w \<le> 1000 \<and> mn \<le> w \<and> w \<le> mx}"

text \<open>The runs that the loop of \<open>codepointsToRangeString\<close> closes, as pairs.\<close>

fun runsLoop :: "nat list \<Rightarrow> nat \<Rightarrow> nat \<Rightarrow> (nat \<times> nat) list" where
  "runsLoop [] prev rangeStart = [(rangeStart, prev)]"
| "runsLoop (x # xs) prev rangeStart =
     (if x \<noteq> prev + 1 then (rangeStart, prev) # runsLoop xs x x
      else runsLoop xs x rangeStart)"

section \<open>Decimal and hexadecimal digits\<close>

declare natToString.simps [simp del]
declare toHexUpper.simps [simp del]

section \<open>File names\<close>

text \<open>
  C8: both file names follow the grammar
  \<open><familyId>-<subset>-<weight or axisKey>-<normalizedStyle>[-<sliceIndex>].<format>\<close>:
  a style that starts with \<open>oblique \<close> is written \<open>italic\<close>, any other style is
  written as it is, and the slice suffix is left out exactly when the slice index is 0.
  The three file names of the specification follow.
\<close>

theorem filename_grammar:
  "generateStaticFilename familyId subsetName weight style sliceIndex format =
     familyId @ ''-'' @ subsetName @ ''-'' @ numberToString weight @ ''-''
       @ (if prefix ''oblique '' style then ''italic'' else style)
       @ (if sliceIndex = 0 then '''' else ''-'' @ natToString sliceIndex)
       @ ''.'' @ formatString format
   \<and> generateVariableFilename familyId subsetName axisKey style sliceIndex format =
     familyId @ ''-'' @ subsetName @ ''-'' @ axisKey @ ''-''
       @ (if prefix ''oblique '' style then ''italic'' else style)
       @ (if sliceIndex = 0 then '''' else ''-'' @ natToString sliceIndex)
       @ ''.'' @ formatString format
   \<and> generateStaticFilename ''inter'' ''latin'' 400 ''normal'' 0 Woff2
       = ''inter-latin-400-normal.woff2''
   \<and> generateStaticFilename ''inter'' ''latin'' 400 ''oblique 10deg'' 0 Woff2
       = ''inter-latin-400-italic.woff2''
   \<and> generateVariableFilename ''inter'' ''latin'' ''wght'' ''italic'' 0 Woff
       = ''inter-latin-wght-italic.woff''"
proof -
  have n400: "numberToString 400 = ''400''"
    by code_simp
  show ?thesis
    by (simp add: generateStaticFilename_def generateVariableFilename_def
        normalizeStyleForFilename_def startsWith_def n400)
qed

theorem filename_grammar_witness:
  "generateStaticFilename ''inter'' ''japanese'' 400 ''oblique 10deg'' 2 Woff2
     = ''inter-japanese-400-italic-2.woff2''
   \<and> generateVariableFilename ''inter'' ''japanese'' ''wght'' ''oblique 10deg'' 2 Woff2
     = ''inter-japanese-wght-italic-2.woff2''"
proof -
  have n: "numberToString 400 = ''400''" "natToString 2 = ''2''"
    by code_simp+
  from filename_grammar [where familyId = "''inter''" and subsetName = "''japanese''"
      and weight = 400 and style = "''oblique 10deg''" and sliceIndex = 2
      and format = Woff2 and axisKey = "''wght''"]
  show ?thesis
    by (simp add: n)
qed

section \<open>The unicode-range string\<close>

subsection \<open>Sets in insertion order\<close>

lemma set_setAdd: "set (setAdd s x) = insert x (set s)"
  by (auto simp: setAdd_def)

lemma distinct_setAdd: "distinct s \<Longrightarrow> distinct (setAdd s x)"
  by (simp add: setAdd_def)

lemma set_foldl_setAdd: "set (foldl setAdd s xs) = set s \<union> set xs"
  by (induction xs arbitrary: s) (auto simp: set_setAdd)

lemma distinct_foldl_setAdd: "distinct s \<Longrightarrow> distinct (foldl setAdd s xs)"
  by (induction xs arbitrary: s) (auto simp: distinct_setAdd)

lemma set_newSet: "set (newSet xs) = set xs"
  by (simp add: newSet_def set_foldl_setAdd)

lemma distinct_newSet: "distinct (newSet xs)"
  by (simp add: newSet_def distinct_foldl_setAdd)

lemma sort_newSet: "sort (newSet xs) = sorted_list_of_set (set xs)"
  using distinct_newSet[of xs] set_newSet[of xs]
  by (metis distinct_remdups_id sorted_list_of_set_sort_remdups)

subsection \<open>The loop closes the maximal runs\<close>

lemma rangeLoop_runs:
  "rangeLoop xs prev start acc = (s', acc') \<Longrightarrow>
   acc' @ [rangeText s' (last (prev # xs))]
     = acc @ map (\<lambda>(a, b). rangeText a b) (runsLoop xs prev start)"
  by (induction xs arbitrary: prev start acc) (auto split: if_splits)

lemma runsLoop_union:
  "start \<le> prev \<Longrightarrow> sorted_wrt (<) (prev # xs) \<Longrightarrow>
   (\<Union>(a, b) \<in> set (runsLoop xs prev start). {a..b}) = {start..prev} \<union> set xs"
proof (induction xs arbitrary: prev start)
  case Nil
  then show ?case by simp
next
  case (Cons x xs)
  have sx: "sorted_wrt (<) (x # xs)"
    using Cons.prems(2) by simp
  show ?case
  proof (cases "x = prev + 1")
    case True
    have "start \<le> x"
      using Cons.prems(1) True by simp
    from Cons.IH [OF this sx]
    have "(\<Union>(a, b) \<in> set (runsLoop xs x start). {a..b}) = {start..x} \<union> set xs" .
    moreover have "{start..x} = insert x {start..prev}"
      using True Cons.prems(1) by auto
    ultimately show ?thesis
      using True by simp
  next
    case False
    from Cons.IH [OF order_refl sx]
    have "(\<Union>(a, b) \<in> set (runsLoop xs x x). {a..b}) = {x..x} \<union> set xs" .
    then show ?thesis
      using False by auto
  qed
qed

lemma runsLoop_hd:
  "\<exists>b rest. runsLoop xs prev start = (start, b) # rest \<and> prev \<le> b"
proof (induction xs arbitrary: prev start)
  case Nil
  then show ?case by simp
next
  case (Cons x xs)
  show ?case
  proof (cases "x = prev + 1")
    case True
    from Cons.IH [of x start] obtain b rest
      where "runsLoop xs x start = (start, b) # rest" "x \<le> b" by blast
    then show ?thesis using True by simp
  next
    case False
    then show ?thesis by simp
  qed
qed

lemma runsLoop_ordered:
  "start \<le> prev \<Longrightarrow> sorted_wrt (<) (prev # xs) \<Longrightarrow>
   (\<forall>(a, b) \<in> set (runsLoop xs prev start). a \<le> b \<and> start \<le> a)
   \<and> sorted_wrt (\<lambda>(a, b) (c, d). b + 1 < c) (runsLoop xs prev start)"
proof (induction xs arbitrary: prev start)
  case Nil
  then show ?case by simp
next
  case (Cons x xs)
  have sx: "sorted_wrt (<) (x # xs)" and px: "prev < x"
    using Cons.prems(2) by simp_all
  show ?case
  proof (cases "x = prev + 1")
    case True
    have "start \<le> x"
      using Cons.prems(1) True by simp
    from Cons.IH [OF this sx] show ?thesis
      using True by simp
  next
    case False
    from Cons.IH [OF order_refl sx]
    have ih: "\<forall>(a, b) \<in> set (runsLoop xs x x). a \<le> b \<and> x \<le> a"
      and so: "sorted_wrt (\<lambda>(a, b) (c, d). b + 1 < c) (runsLoop xs x x)"
      by simp_all
    have "prev + 1 < x"
      using False px by simp
    then have "\<forall>(c, d) \<in> set (runsLoop xs x x). prev + 1 < c"
      using ih by auto
    then show ?thesis
      using False ih so Cons.prems(1) px by auto
  qed
qed

lemma sorted_wrt_cases:
  "sorted_wrt P xs \<Longrightarrow> x \<in> set xs \<Longrightarrow> y \<in> set xs \<Longrightarrow> x = y \<or> P x y \<or> P y x"
  by (induction xs) auto

lemma gaps_maximal:
  assumes gaps: "sorted_wrt (\<lambda>(a, b) (c, d). b + 1 < c) (rs :: (nat \<times> nat) list)"
    and le: "\<forall>(a, b) \<in> set rs. a \<le> b"
    and mem: "(a, b) \<in> set rs"
  shows "b + 1 \<notin> (\<Union>(a, b) \<in> set rs. {a..b})"
    and "a = 0 \<or> a - 1 \<notin> (\<Union>(a, b) \<in> set rs. {a..b})"
proof -
  have rel: "(c, d) = (a, b) \<or> b + 1 < c \<or> d + 1 < a" if "(c, d) \<in> set rs" for c d
    using sorted_wrt_cases [OF gaps mem that] by auto
  have cd: "c \<le> d" if "(c, d) \<in> set rs" for c d
    using le that by auto
  show "b + 1 \<notin> (\<Union>(a, b) \<in> set rs. {a..b})"
  proof
    assume "b + 1 \<in> (\<Union>(a, b) \<in> set rs. {a..b})"
    then obtain c d where m: "(c, d) \<in> set rs" and r: "c \<le> b + 1" "b + 1 \<le> d"
      by auto
    from rel [OF m] cd [OF m] cd [OF mem] r show False
      by auto
  qed
  show "a = 0 \<or> a - 1 \<notin> (\<Union>(a, b) \<in> set rs. {a..b})"
  proof (cases "a = 0")
    case True
    then show ?thesis by simp
  next
    case False
    have "a - 1 \<notin> (\<Union>(a, b) \<in> set rs. {a..b})"
    proof
      assume "a - 1 \<in> (\<Union>(a, b) \<in> set rs. {a..b})"
      then obtain c d where m: "(c, d) \<in> set rs" and r: "c \<le> a - 1" "a - 1 \<le> d"
        by auto
      from rel [OF m] cd [OF m] cd [OF mem] r False show False
        by auto
    qed
    then show ?thesis by simp
  qed
qed

lemma isRunList_runsLoop:
  assumes "start \<le> prev" and "sorted_wrt (<) (prev # xs)"
  shows "isRunList ({start..prev} \<union> set xs) (runsLoop xs prev start)"
proof -
  let ?rs = "runsLoop xs prev start"
  let ?S = "{start..prev} \<union> set xs"
  have un: "(\<Union>(a, b) \<in> set ?rs. {a..b}) = ?S"
    by (rule runsLoop_union [OF assms])
  have le: "\<forall>(a, b) \<in> set ?rs. a \<le> b"
    using runsLoop_ordered [OF assms] by auto
  have gaps: "sorted_wrt (\<lambda>(a, b) (c, d). b + 1 < c) ?rs"
    using runsLoop_ordered [OF assms] by simp
  have asc: "sorted_wrt (\<lambda>(a, b) (c, d). b < c) ?rs"
    by (rule sorted_wrt_mono_rel [OF _ gaps]) auto
  have each: "a \<le> b \<and> {a..b} \<subseteq> ?S \<and> (a = 0 \<or> a - 1 \<notin> ?S) \<and> b + 1 \<notin> ?S"
    if m: "(a, b) \<in> set ?rs" for a b
  proof -
    have "a \<le> b" using le m by auto
    moreover have "{a..b} \<subseteq> ?S"
      using m un by blast
    moreover have "a = 0 \<or> a - 1 \<notin> ?S"
      using gaps_maximal(2) [OF gaps le m] un by simp
    moreover have "b + 1 \<notin> ?S"
      using gaps_maximal(1) [OF gaps le m] un by simp
    ultimately show ?thesis by blast
  qed
  show ?thesis
    unfolding isRunList_def using each un asc by blast
qed

lemma codepointsToRangeString_runs:
  "\<exists>runs. isRunList (set xs) runs
     \<and> codepointsToRangeString (Some xs) = join '', '' (map (\<lambda>(a, b). rangeText a b) runs)"
proof (cases "sort (newSet xs)")
  case Nil
  then have "set xs = {}"
    by (metis set_newSet set_sort list.set(1))
  then have "isRunList (set xs) []"
    by (simp add: isRunList_def)
  moreover have "codepointsToRangeString (Some xs) = join '', '' (map (\<lambda>(a, b). rangeText a b) [])"
    using Nil by (simp add: codepointsToRangeString_def)
  ultimately show ?thesis by blast
next
  case (Cons first rest)
  have sl: "sorted_wrt (<) (first # rest)"
    using Cons sort_newSet [of xs] strict_sorted_list_of_set [of "set xs"] by simp
  have S: "set xs = {first..first} \<union> set rest"
    using Cons by (metis set_newSet set_sort list.set(2) atLeastAtMost_singleton insert_is_Un)
  obtain s' acc' where loop: "rangeLoop rest first first [] = (s', acc')"
    by (cases "rangeLoop rest first first []") auto
  from rangeLoop_runs [OF loop]
  have "acc' @ [rangeText s' (last (first # rest))]
          = map (\<lambda>(a, b). rangeText a b) (runsLoop rest first first)"
    by simp
  then have out: "codepointsToRangeString (Some xs)
      = join '', '' (map (\<lambda>(a, b). rangeText a b) (runsLoop rest first first))"
    using Cons loop by (simp add: codepointsToRangeString_def)
  have "isRunList (set xs) (runsLoop rest first first)"
    unfolding S by (rule isRunList_runsLoop [OF order_refl sl])
  with out show ?thesis by blast
qed

lemma codepointsToRangeString_set:
  "set xs = set ys \<Longrightarrow> codepointsToRangeString (Some xs) = codepointsToRangeString (Some ys)"
  by (simp add: codepointsToRangeString_def sort_newSet)

subsection \<open>A set has one list of maximal runs\<close>

lemma isRunList_Cons:
  assumes "isRunList S ((a, b) # rest)"
  shows "a \<in> S" and "\<forall>x \<in> S. a \<le> x" and "a \<le> b" and "{a..b} \<subseteq> S" and "b + 1 \<notin> S"
    and "isRunList (S - {a..b}) rest"
proof -
  have ab: "a \<le> b" "{a..b} \<subseteq> S" "b + 1 \<notin> S"
    and each: "\<forall>(c, d) \<in> set rest. c \<le> d \<and> {c..d} \<subseteq> S \<and> (c = 0 \<or> c - 1 \<notin> S) \<and> d + 1 \<notin> S"
    and un: "{a..b} \<union> (\<Union>(c, d) \<in> set rest. {c..d}) = S"
    and after: "\<forall>(c, d) \<in> set rest. b < c"
    and asc: "sorted_wrt (\<lambda>(a, b) (c, d). b < c) rest"
    using assms by (auto simp: isRunList_def)
  show "a \<le> b" "{a..b} \<subseteq> S" "b + 1 \<notin> S"
    by (rule ab)+
  show "a \<in> S"
    using ab by auto
  show "\<forall>x \<in> S. a \<le> x"
  proof
    fix x assume "x \<in> S"
    then have "x \<in> {a..b} \<or> (\<exists>(c, d) \<in> set rest. x \<in> {c..d})"
      using un by blast
    then show "a \<le> x"
      using after ab(1) by fastforce
  qed
  have disj: "{c..d} \<inter> {a..b} = {}" if "(c, d) \<in> set rest" for c d
    using after that by fastforce
  have "(\<Union>(c, d) \<in> set rest. {c..d}) = S - {a..b}"
    using un disj by blast
  moreover have "\<forall>(c, d) \<in> set rest.
      c \<le> d \<and> {c..d} \<subseteq> S - {a..b} \<and> (c = 0 \<or> c - 1 \<notin> S - {a..b}) \<and> d + 1 \<notin> S - {a..b}"
    using each disj by fastforce
  ultimately show "isRunList (S - {a..b}) rest"
    using asc by (simp add: isRunList_def)
qed

lemma isRunList_unique:
  "isRunList S rs \<Longrightarrow> isRunList S rs' \<Longrightarrow> rs = rs'"
proof (induction rs arbitrary: rs' S)
  case Nil
  then have "S = {}"
    by (simp add: isRunList_def)
  show ?case
  proof (cases rs')
    case Nil
    then show ?thesis by simp
  next
    case (Cons p rest')
    obtain a b where "p = (a, b)" by (cases p)
    with Cons Nil.prems(2) have "a \<in> S"
      using isRunList_Cons(1) by blast
    with \<open>S = {}\<close> show ?thesis by simp
  qed
next
  case (Cons p rest)
  obtain a b where p: "p = (a, b)" by (cases p)
  note L = isRunList_Cons [OF Cons.prems(1) [unfolded p]]
  show ?case
  proof (cases rs')
    case Nil
    with Cons.prems(2) have "S = {}"
      by (simp add: isRunList_def)
    with L(1) show ?thesis by simp
  next
    case (Cons p' rest')
    obtain a' b' where p': "p' = (a', b')" by (cases p')
    note R = isRunList_Cons [OF Cons.prems(2) [unfolded Cons p']]
    have a: "a = a'"
      using L(1,2) R(1,2) by (simp add: order_antisym)
    have b: "b = b'"
    proof (rule ccontr)
      assume "b \<noteq> b'"
      then consider "b < b'" | "b' < b" by linarith
      then show False
      proof cases
        case 1
        then have "b + 1 \<in> {a'..b'}"
          using L(3) a by simp
        with R(4) L(5) show False by blast
      next
        case 2
        then have "b' + 1 \<in> {a..b}"
          using R(3) a by simp
        with L(4) R(5) show False by blast
      qed
    qed
    have "rest = rest'"
      using Cons.IH [OF L(6)] R(6) a b by simp
    then show ?thesis
      using Cons p p' a b by simp
  qed
qed

subsection \<open>Hexadecimal digits\<close>

lemma digitChar_upper: "d < 16 \<Longrightarrow> digitChar d \<in> set ''0123456789ABCDEF''"
  unfolding digitChar_def by (rule nth_mem) simp

lemma hexDigitValue_digitChar: "d < 16 \<Longrightarrow> hexDigitValue (digitChar d) = d"
proof -
  assume "d < 16"
  then have "d \<in> set [0..<16]" by simp
  then have "d \<in> {0, 1, 2, 3, 4, 5, 6, 7, 8, 9, 10, 11, 12, 13, 14, 15}"
    by (simp add: upt_rec numeral_eq_Suc) 
  then show ?thesis
    by (auto simp: hexDigitValue_def digitChar_def)
qed

lemma toHexUpper_chars: "set (toHexUpper n) \<subseteq> set ''0123456789ABCDEF''"
proof (induction n rule: toHexUpper.induct)
  case (1 n)
  show ?case
  proof (cases "n < 16")
    case True
    then show ?thesis
      using digitChar_upper [of n] by (subst toHexUpper.simps) simp
  next
    case False
    have "n mod 16 < 16" by simp
    then show ?thesis
      using 1 False digitChar_upper [of "n mod 16"] by (subst toHexUpper.simps) simp
  qed
qed

lemma toHexUpper_value:
  "foldl (\<lambda>acc c. acc * 16 + hexDigitValue c) 0 (toHexUpper n) = n"
proof (induction n rule: toHexUpper.induct)
  case (1 n)
  show ?case
  proof (cases "n < 16")
    case True
    then show ?thesis
      by (subst toHexUpper.simps) (simp add: hexDigitValue_digitChar)
  next
    case False
    then show ?thesis
      using 1 by (subst toHexUpper.simps) (simp add: hexDigitValue_digitChar)
  qed
qed

text \<open>
  C7: two codepoint lists with the same elements, in any order and with any repetition,
  give the same string. The string is the ascending list of the maximal contiguous runs
  of the set of codepoints, of which there is exactly one, each run written \<open>U+<HEX>\<close>
  when it is a single codepoint and \<open>U+<HEX>-<HEX>\<close> otherwise, the runs joined by a
  comma and a space. The digits are upper-case hexadecimal digits that read back as the
  codepoint.
\<close>

theorem codepointsToRangeString_canonical:
  assumes "set xs = set ys"
  shows "codepointsToRangeString (Some xs) = codepointsToRangeString (Some ys)
    \<and> (\<exists>!runs. isRunList (set xs) runs)
    \<and> (\<exists>runs. isRunList (set xs) runs
          \<and> codepointsToRangeString (Some xs)
              = join '', ''
                  (map (\<lambda>(a, b). if a = b then ''U+'' @ toHexUpper a
                                  else ''U+'' @ toHexUpper a @ ''-'' @ toHexUpper b)
                     runs))
    \<and> (\<forall>n. set (toHexUpper n) \<subseteq> set ''0123456789ABCDEF''
          \<and> foldl (\<lambda>acc c. acc * 16 + hexDigitValue c) 0 (toHexUpper n) = n)"
proof -
  have same: "codepointsToRangeString (Some xs) = codepointsToRangeString (Some ys)"
    by (rule codepointsToRangeString_set [OF assms])
  obtain runs where runs: "isRunList (set xs) runs"
    and out: "codepointsToRangeString (Some xs)
                = join '', '' (map (\<lambda>(a, b). rangeText a b) runs)"
    using codepointsToRangeString_runs [of xs] by blast
  have one: "\<exists>!runs. isRunList (set xs) runs"
    using runs isRunList_unique by blast
  have rt: "(\<lambda>(a, b). rangeText a b)
      = (\<lambda>(a, b). if a = b then ''U+'' @ toHexUpper a
                    else ''U+'' @ toHexUpper a @ ''-'' @ toHexUpper b)"
    by (simp add: rangeText_def fun_eq_iff)
  have hex: "\<forall>n. set (toHexUpper n) \<subseteq> set ''0123456789ABCDEF''
          \<and> foldl (\<lambda>acc c. acc * 16 + hexDigitValue c) 0 (toHexUpper n) = n"
    using toHexUpper_chars toHexUpper_value by blast
  from same one runs out [unfolded rt] hex show ?thesis
    by blast
qed

theorem codepointsToRangeString_canonical_witness:
  "set [5, 1, 3, 2, 1, 65536, 10, 11 :: nat] = set [1, 2, 3, 5, 10, 11, 11, 65536]
   \<and> codepointsToRangeString (Some [5, 1, 3, 2, 1, 65536, 10, 11])
       = codepointsToRangeString (Some [1, 2, 3, 5, 10, 11, 11, 65536])
   \<and> codepointsToRangeString (Some [1, 2, 3, 5, 10, 11, 11, 65536])
       = ''U+1-3, U+5, U+A-B, U+10000''"
proof -
  have h: "set [5, 1, 3, 2, 1, 65536, 10, 11 :: nat] = set [1, 2, 3, 5, 10, 11, 11, 65536]"
    by auto
  have v: "codepointsToRangeString (Some [1, 2, 3, 5, 10, 11, 11, 65536])
       = ''U+1-3, U+5, U+A-B, U+10000''"
    by (simp add: codepointsToRangeString_def newSet_def setAdd_def rangeText_def
        toHexUpper.simps digitChar_def)
  from codepointsToRangeString_canonical [OF h] h v show ?thesis
    by blast
qed

section \<open>The @font-face block\<close>

lemma fontFaceText_not_empty: "fontFaceText c f s w st sr u \<noteq> ''''"
  by (simp add: fontFaceText_def)

text \<open>
  C5, as the code has it: in the block of a group whose first variant is variable, the
  font weight is \<open>min max\<close> when the \<open>wght\<close> axis is configured with two different
  bounds and the single value when they are equal; it is \<open>100 900\<close> when the axis
  configuration has no key at all, and \<open>400\<close> when \<open>wght\<close> is not configured and
  the configuration has some other key.
\<close>

theorem variable_font_weight:
  assumes "fontFaceUnicodeRange subsetDef (pv_sliceIndex b) \<noteq> ''''"
  shows "generateFontFace family (VariableVariant b variable axisKey # rest) subsetDef =
     fontFaceText
       (normalizeKebabCase family @ ''-'' @ pv_subset b @ ''-'' @ axisKey @ ''-''
          @ (if prefix ''oblique '' (variableStyle variable) then ''italic''
             else variableStyle variable)
          @ (if pv_sliceIndex b = 0 then '''' else ''-'' @ natToString (pv_sliceIndex b)))
       (family @ '' Variable'')
       (variableStyle variable)
       (case axisOf variable ''wght'' of
          Some wght \<Rightarrow>
            if axisMin wght = axisMax wght then numberToString (axisMin wght)
            else numberToString (axisMin wght) @ '' '' @ numberToString (axisMax wght)
        | None \<Rightarrow> if variable = [] then ''100 900'' else ''400'')
       (variableStretch variable)
       (generateFontSrc (VariableVariant b variable axisKey # rest))
       (fontFaceUnicodeRange subsetDef (pv_sliceIndex b))"
  using assms
  by (simp add: generateFontFace_def variableWeight_def startsWith_def Let_def
      split: option.split)

lemmas css_eval =
  variableWeight_def variableStyle_def variableStretch_def axisOf_def
  fontFaceUnicodeRange_def startsWith_def endsWith_def suffix_to_prefix quote_def
  generateFontSrc_def normalizeKebabCase_def toLowerCase_def lowerChar_def isWhiteSpace_def
  numberToString_def natToString.simps digitChar_def Let_def

theorem variable_font_weight_witness:
  "fontFaceUnicodeRange (RangeSubset ''latin'' ''U+0000-00FF'' []) 0 \<noteq> ''''
   \<and> generateFontFace ''Inter''
        [VariableVariant
           \<lparr>pv_weight = 400, pv_style = ''normal'', pv_subset = ''latin'', pv_sliceIndex = 0,
            pv_filename = ''inter-latin-variable.woff2'', pv_content = ''x''\<rparr>
           [(''wght'', Some \<lparr>axisMin = 100, axisMax = 900\<rparr>)] ''wght'']
        (RangeSubset ''latin'' ''U+0000-00FF'' [])
      = fontFaceText ''inter-latin-wght-normal'' ''Inter Variable'' ''normal'' ''100 900'' ''''
          (''url(./files/inter-latin-variable.woff2) format('' @ quote @ ''woff2-variations''
             @ quote @ '')'')
          ''U+0000-00FF''"
proof -
  have h: "fontFaceUnicodeRange (RangeSubset ''latin'' ''U+0000-00FF'' [])
             (pv_sliceIndex \<lparr>pv_weight = 400, pv_style = ''normal'', pv_subset = ''latin'',
                pv_sliceIndex = 0, pv_filename = ''inter-latin-variable.woff2'',
                pv_content = ''x''\<rparr>) \<noteq> ''''"
    by (simp add: fontFaceUnicodeRange_def)
  from variable_font_weight [OF h, of "''Inter''"
      "[(''wght'', Some \<lparr>axisMin = 100, axisMax = 900\<rparr>)]" "''wght''" "[]"]
  show ?thesis
    by (simp add: css_eval)
qed

text \<open>
  C5, as the claim has it, fails for a configuration with a slant axis and no weight
  axis: the weight is \<open>400\<close>, not \<open>100 900\<close>.
\<close>

theorem variable_font_weight_counterexample:
  "axisOf [(''slnt'', Some \<lparr>axisMin = - 10, axisMax = 10\<rparr>)] ''wght'' = None
   \<and> generateFontFace ''Inter''
        [VariableVariant
           \<lparr>pv_weight = 400, pv_style = ''normal'', pv_subset = ''latin-ext'',
            pv_sliceIndex = 0, pv_filename = ''inter-latin-ext-variable-slnt.woff2'',
            pv_content = ''x''\<rparr>
           [(''slnt'', Some \<lparr>axisMin = - 10, axisMax = 10\<rparr>)] ''slnt'']
        (RangeSubset ''latin-ext'' ''U+0100-024F'' [])
      = fontFaceText ''inter-latin-ext-slnt-italic'' ''Inter Variable''
          ''oblique 10deg 10deg'' ''400'' ''''
          (''url(./files/inter-latin-ext-variable-slnt.woff2) format('' @ quote
             @ ''woff2-variations'' @ quote @ '')'')
          ''U+0100-024F''
   \<and> generateFontFace ''Inter''
        [VariableVariant
           \<lparr>pv_weight = 400, pv_style = ''normal'', pv_subset = ''latin-ext'',
            pv_sliceIndex = 0, pv_filename = ''inter-latin-ext-variable-slnt.woff2'',
            pv_content = ''x''\<rparr>
           [(''slnt'', Some \<lparr>axisMin = - 10, axisMax = 10\<rparr>)] ''slnt'']
        (RangeSubset ''latin-ext'' ''U+0100-024F'' [])
      \<noteq> fontFaceText ''inter-latin-ext-slnt-italic'' ''Inter Variable''
          ''oblique 10deg 10deg'' ''100 900'' ''''
          (''url(./files/inter-latin-ext-variable-slnt.woff2) format('' @ quote
             @ ''woff2-variations'' @ quote @ '')'')
          ''U+0100-024F''"
  by (simp add: generateFontFace_def css_eval fontFaceText_def)

text \<open>
  C10: a block is generated for a non-empty group whose unicode range is not empty. The
  block is the text below: its \<open>font-family\<close> line declares, between quotes, the
  family name followed by \<open> Variable\<close> when the first variant of the group is variable,
  and the family name as it is when that variant is static.
\<close>

theorem fontFace_family:
  "(generateFontFace family variants subsetDef \<noteq> '''' \<longleftrightarrow>
      (\<exists>v rest. variants = v # rest
         \<and> fontFaceUnicodeRange subsetDef (pv_sliceIndex (variantBase v)) \<noteq> ''''))
   \<and> (fontFaceUnicodeRange subsetDef (pv_sliceIndex b) \<noteq> '''' \<longrightarrow>
        generateFontFace family (VariableVariant b variable axisKey # rest) subsetDef =
          ''/* '' @ normalizeKebabCase family @ ''-'' @ pv_subset b @ ''-'' @ axisKey @ ''-''
            @ (if prefix ''oblique '' (variableStyle variable) then ''italic''
               else variableStyle variable)
            @ (if pv_sliceIndex b = 0 then '''' else ''-'' @ natToString (pv_sliceIndex b))
            @ '' */'' @ newline
          @ ''@font-face {'' @ newline
          @ ''  font-family: '' @ quote @ family @ '' Variable'' @ quote @ '';'' @ newline
          @ ''  font-style: '' @ variableStyle variable @ '';'' @ newline
          @ ''  font-display: swap;'' @ newline
          @ ''  font-weight: '' @ variableWeight variable @ '';'' @ variableStretch variable
            @ newline
          @ ''  src: '' @ generateFontSrc (VariableVariant b variable axisKey # rest) @ '';''
            @ newline
          @ ''  unicode-range: '' @ fontFaceUnicodeRange subsetDef (pv_sliceIndex b) @ '';''
            @ newline
          @ ''}'' @ newline
        \<and> generateFontFace family (StaticVariant b # rest) subsetDef =
          ''/* '' @ normalizeKebabCase family @ ''-'' @ pv_subset b @ ''-''
            @ numberToString (pv_weight b) @ ''-''
            @ (if prefix ''oblique '' (pv_style b) then ''italic'' else pv_style b)
            @ (if pv_sliceIndex b = 0 then '''' else ''-'' @ natToString (pv_sliceIndex b))
            @ '' */'' @ newline
          @ ''@font-face {'' @ newline
          @ ''  font-family: '' @ quote @ family @ quote @ '';'' @ newline
          @ ''  font-style: '' @ pv_style b @ '';'' @ newline
          @ ''  font-display: swap;'' @ newline
          @ ''  font-weight: '' @ numberToString (pv_weight b) @ '';'' @ newline
          @ ''  src: '' @ generateFontSrc (StaticVariant b # rest) @ '';'' @ newline
          @ ''  unicode-range: '' @ fontFaceUnicodeRange subsetDef (pv_sliceIndex b) @ '';''
            @ newline
          @ ''}'' @ newline)"
proof -
  have generated: "generateFontFace family variants subsetDef \<noteq> '''' \<longleftrightarrow>
      (\<exists>v rest. variants = v # rest
         \<and> fontFaceUnicodeRange subsetDef (pv_sliceIndex (variantBase v)) \<noteq> '''')"
  proof (cases variants)
    case Nil
    then show ?thesis
      by (simp add: generateFontFace_def)
  next
    case (Cons v rest)
    then show ?thesis
      by (cases v)
        (simp_all add: generateFontFace_def Let_def fontFaceText_not_empty split: prod.split)
  qed
  have variableBlock:
    "generateFontFace family (VariableVariant b variable axisKey # rest) subsetDef =
          fontFaceText
            (normalizeKebabCase family @ ''-'' @ pv_subset b @ ''-'' @ axisKey @ ''-''
               @ (if prefix ''oblique '' (variableStyle variable) then ''italic''
                  else variableStyle variable)
               @ (if pv_sliceIndex b = 0 then ''''
                  else ''-'' @ natToString (pv_sliceIndex b)))
            (family @ '' Variable'')
            (variableStyle variable) (variableWeight variable) (variableStretch variable)
            (generateFontSrc (VariableVariant b variable axisKey # rest))
            (fontFaceUnicodeRange subsetDef (pv_sliceIndex b))"
    if "fontFaceUnicodeRange subsetDef (pv_sliceIndex b) \<noteq> ''''"
    using that by (simp add: generateFontFace_def startsWith_def Let_def)
  have staticBlock:
    "generateFontFace family (StaticVariant b # rest) subsetDef =
          fontFaceText
            (normalizeKebabCase family @ ''-'' @ pv_subset b @ ''-''
               @ numberToString (pv_weight b) @ ''-''
               @ (if prefix ''oblique '' (pv_style b) then ''italic'' else pv_style b)
               @ (if pv_sliceIndex b = 0 then ''''
                  else ''-'' @ natToString (pv_sliceIndex b)))
            family
            (pv_style b) (numberToString (pv_weight b)) ''''
            (generateFontSrc (StaticVariant b # rest))
            (fontFaceUnicodeRange subsetDef (pv_sliceIndex b))"
    if "fontFaceUnicodeRange subsetDef (pv_sliceIndex b) \<noteq> ''''"
    using that by (simp add: generateFontFace_def startsWith_def Let_def)
  show ?thesis
  proof (intro conjI impI)
    show "generateFontFace family variants subsetDef \<noteq> '''' \<longleftrightarrow>
      (\<exists>v rest. variants = v # rest
         \<and> fontFaceUnicodeRange subsetDef (pv_sliceIndex (variantBase v)) \<noteq> '''')"
      by (rule generated)
  next
    assume r: "fontFaceUnicodeRange subsetDef (pv_sliceIndex b) \<noteq> ''''"
    show "generateFontFace family (VariableVariant b variable axisKey # rest) subsetDef =
          ''/* '' @ normalizeKebabCase family @ ''-'' @ pv_subset b @ ''-'' @ axisKey @ ''-''
            @ (if prefix ''oblique '' (variableStyle variable) then ''italic''
               else variableStyle variable)
            @ (if pv_sliceIndex b = 0 then '''' else ''-'' @ natToString (pv_sliceIndex b))
            @ '' */'' @ newline
          @ ''@font-face {'' @ newline
          @ ''  font-family: '' @ quote @ family @ '' Variable'' @ quote @ '';'' @ newline
          @ ''  font-style: '' @ variableStyle variable @ '';'' @ newline
          @ ''  font-display: swap;'' @ newline
          @ ''  font-weight: '' @ variableWeight variable @ '';'' @ variableStretch variable
            @ newline
          @ ''  src: '' @ generateFontSrc (VariableVariant b variable axisKey # rest) @ '';''
            @ newline
          @ ''  unicode-range: '' @ fontFaceUnicodeRange subsetDef (pv_sliceIndex b) @ '';''
            @ newline
          @ ''}'' @ newline"
      unfolding variableBlock [OF r] fontFaceText_def by simp
  next
    assume r: "fontFaceUnicodeRange subsetDef (pv_sliceIndex b) \<noteq> ''''"
    show "generateFontFace family (StaticVariant b # rest) subsetDef =
          ''/* '' @ normalizeKebabCase family @ ''-'' @ pv_subset b @ ''-''
            @ numberToString (pv_weight b) @ ''-''
            @ (if prefix ''oblique '' (pv_style b) then ''italic'' else pv_style b)
            @ (if pv_sliceIndex b = 0 then '''' else ''-'' @ natToString (pv_sliceIndex b))
            @ '' */'' @ newline
          @ ''@font-face {'' @ newline
          @ ''  font-family: '' @ quote @ family @ quote @ '';'' @ newline
          @ ''  font-style: '' @ pv_style b @ '';'' @ newline
          @ ''  font-display: swap;'' @ newline
          @ ''  font-weight: '' @ numberToString (pv_weight b) @ '';'' @ newline
          @ ''  src: '' @ generateFontSrc (StaticVariant b # rest) @ '';'' @ newline
          @ ''  unicode-range: '' @ fontFaceUnicodeRange subsetDef (pv_sliceIndex b) @ '';''
            @ newline
          @ ''}'' @ newline"
      unfolding staticBlock [OF r] fontFaceText_def by simp
  qed
qed

theorem fontFace_family_witness:
  "generateFontFace ''Inter''
     [StaticVariant
        \<lparr>pv_weight = 400, pv_style = ''normal'', pv_subset = ''latin'', pv_sliceIndex = 0,
         pv_filename = ''inter-latin-400-normal.woff2'', pv_content = ''x''\<rparr>]
     (RangeSubset ''latin'' ''U+0000-00FF'' [])
     = ''/* inter-latin-400-normal */'' @ newline
       @ ''@font-face {'' @ newline
       @ ''  font-family: '' @ quote @ ''Inter'' @ quote @ '';'' @ newline
       @ ''  font-style: normal;'' @ newline
       @ ''  font-display: swap;'' @ newline
       @ ''  font-weight: 400;'' @ newline
       @ ''  src: url(./files/inter-latin-400-normal.woff2) format('' @ quote @ ''woff2''
         @ quote @ '');'' @ newline
       @ ''  unicode-range: U+0000-00FF;'' @ newline
       @ ''}'' @ newline
   \<and> generateFontFace ''Inter''
     [VariableVariant
        \<lparr>pv_weight = 400, pv_style = ''normal'', pv_subset = ''latin'', pv_sliceIndex = 0,
         pv_filename = ''inter-latin-400-normal.woff2'', pv_content = ''x''\<rparr>
        [] ''wght'']
     (RangeSubset ''latin'' ''U+0000-00FF'' [])
     = ''/* inter-latin-wght-normal */'' @ newline
       @ ''@font-face {'' @ newline
       @ ''  font-family: '' @ quote @ ''Inter Variable'' @ quote @ '';'' @ newline
       @ ''  font-style: normal;'' @ newline
       @ ''  font-display: swap;'' @ newline
       @ ''  font-weight: 100 900;'' @ newline
       @ ''  src: url(./files/inter-latin-400-normal.woff2) format('' @ quote
         @ ''woff2-variations'' @ quote @ '');'' @ newline
       @ ''  unicode-range: U+0000-00FF;'' @ newline
       @ ''}'' @ newline"
proof -
  have h: "fontFaceUnicodeRange (RangeSubset ''latin'' ''U+0000-00FF'' [])
             (pv_sliceIndex \<lparr>pv_weight = 400, pv_style = ''normal'', pv_subset = ''latin'',
                pv_sliceIndex = 0, pv_filename = ''inter-latin-400-normal.woff2'',
                pv_content = ''x''\<rparr>) \<noteq> ''''"
    by (simp add: fontFaceUnicodeRange_def)
  from fontFace_family [where family = "''Inter''" and variable = "[]"
      and axisKey = "''wght''" and rest = "[]"
      and subsetDef = "RangeSubset ''latin'' ''U+0000-00FF'' []"
      and b = "\<lparr>pv_weight = 400, pv_style = ''normal'', pv_subset = ''latin'',
                pv_sliceIndex = 0, pv_filename = ''inter-latin-400-normal.woff2'',
                pv_content = ''x''\<rparr>"] h
  show ?thesis
    by (simp add: css_eval)
qed

section \<open>The weights to process\<close>

lemma hundreds: "{w :: int. 100 dvd w \<and> 100 \<le> w \<and> w \<le> 1000}
    = set [100, 200, 300, 400, 500, 600, 700, 800, 900, 1000]"
proof (rule equalityI; rule subsetI)
  fix w :: int
  assume "w \<in> {w. 100 dvd w \<and> 100 \<le> w \<and> w \<le> 1000}"
  then have d: "100 dvd w" and b: "100 \<le> w" "w \<le> 1000"
    by simp_all
  from d obtain k where k: "w = 100 * k"
    by (elim dvdE)
  with b have "1 \<le> k" "k \<le> 10"
    by simp_all
  then have "k = 1 \<or> k = 2 \<or> k = 3 \<or> k = 4 \<or> k = 5 \<or> k = 6 \<or> k = 7 \<or> k = 8
      \<or> k = 9 \<or> k = 10"
    by presburger
  with k show "w \<in> set [100, 200, 300, 400, 500, 600, 700, 800, 900, 1000]"
    by auto
next
  fix w :: int
  assume "w \<in> set [100, 200, 300, 400, 500, 600, 700, 800, 900, 1000]"
  then show "w \<in> {w. 100 dvd w \<and> 100 \<le> w \<and> w \<le> 1000}"
    by auto
qed

lemma set_foldl_filter_setAdd:
  "set (foldl (\<lambda>ws w. if P w then setAdd ws w else ws) acc xs) = set acc \<union> {w \<in> set xs. P w}"
  by (induction xs arbitrary: acc) (auto simp: set_setAdd)

lemma distinct_foldl_filter_setAdd:
  "distinct acc \<Longrightarrow> distinct (foldl (\<lambda>ws w. if P w then setAdd ws w else ws) acc xs)"
  by (induction xs arbitrary: acc) (auto simp: distinct_setAdd)

lemma targetsStep_weights:
  "set (fst (targetsStep (ws, ss) font))
     = set ws \<union> declaredWeights (sv_weight (font_styleValues font))"
proof (cases "sv_weight (font_styleValues font)")
  case (SingleValue v)
  then show ?thesis
    by (simp add: targetsStep_def set_setAdd)
next
  case (VariableValue mn d mx)
  have "{w. 100 dvd w \<and> 100 \<le> w \<and> w \<le> 1000 \<and> mn \<le> w \<and> w \<le> mx}
      = {w \<in> set [100, 200, 300, 400, 500, 600, 700, 800, 900, 1000]. mn \<le> w \<and> w \<le> mx}"
    using hundreds by blast
  then show ?thesis
    using VariableValue
    by (simp only: targetsStep_def Let_def prod.case StyleValue.case fst_conv
        set_foldl_filter_setAdd declaredWeights.simps set_setAdd split: if_split) auto
qed

lemma targetsStep_distinct:
  "distinct ws \<Longrightarrow> distinct (fst (targetsStep (ws, ss) font))"
  by (cases "sv_weight (font_styleValues font)")
    (simp_all add: targetsStep_def Let_def distinct_setAdd distinct_foldl_filter_setAdd
      del: foldl_Cons)

lemma foldl_targetsStep:
  "set (fst (foldl targetsStep (ws, ss) fonts))
     = set ws \<union> (\<Union>font \<in> set fonts. declaredWeights (sv_weight (font_styleValues font)))
   \<and> (distinct ws \<longrightarrow> distinct (fst (foldl targetsStep (ws, ss) fonts)))"
proof (induction fonts arbitrary: ws ss)
  case Nil
  then show ?case by simp
next
  case (Cons font fonts)
  obtain ws' ss' where step: "targetsStep (ws, ss) font = (ws', ss')"
    by (cases "targetsStep (ws, ss) font")
  have "set ws' = set ws \<union> declaredWeights (sv_weight (font_styleValues font))"
    using targetsStep_weights [of ws ss font] step by simp
  moreover have "distinct ws \<longrightarrow> distinct ws'"
    using targetsStep_distinct [of ws ss font] step by simp
  ultimately show ?case
    using Cons.IH [of ws' ss'] step by auto
qed

text \<open>
  C3: when no weight list is configured (the build is variable, or the static
  configuration has no weights or an empty list), the weights to process are the
  weights that the fonts declare: the single value of a font of fixed weight; the
  minimum, the maximum, the default when it is not zero, and the multiples of 100 from
  100 to 1000 within the minimum and the maximum, of a font of variable weight. They are
  returned once each, in ascending order.
\<close>

theorem inferred_weights:
  assumes "configWeights config = None"
  shows "fst (determineProcessingTargets fontRefs config)
      = sorted_list_of_set
          (\<Union>font \<in> set fontRefs. declaredWeights (sv_weight (font_styleValues font)))
    \<and> set (fst (determineProcessingTargets fontRefs config))
      = (\<Union>font \<in> set fontRefs. declaredWeights (sv_weight (font_styleValues font)))
    \<and> sorted (fst (determineProcessingTargets fontRefs config))
    \<and> distinct (fst (determineProcessingTargets fontRefs config))"
proof -
  let ?W = "\<Union>font \<in> set fontRefs. declaredWeights (sv_weight (font_styleValues font))"
  obtain ws ss where fold: "foldl targetsStep ([], []) fontRefs = (ws, ss)"
    by (cases "foldl targetsStep ([], []) fontRefs")
  have ws: "set ws = ?W" "distinct ws"
    using foldl_targetsStep [of "[]" "[]" fontRefs] fold by simp_all
  have eq: "fst (determineProcessingTargets fontRefs config) = sort ws"
    using assms fold by (simp add: determineProcessingTargets_def)
  have "sort ws = sorted_list_of_set ?W"
    using ws by (metis distinct_remdups_id sorted_list_of_set_sort_remdups)
  then have a: "fst (determineProcessingTargets fontRefs config) = sorted_list_of_set ?W"
    using eq by simp
  have b: "set (fst (determineProcessingTargets fontRefs config)) = ?W"
    using eq ws by simp
  have c: "sorted (fst (determineProcessingTargets fontRefs config))"
    using eq by simp
  have d: "distinct (fst (determineProcessingTargets fontRefs config))"
    using eq ws by simp
  from a b c d show ?thesis
    by blast
qed

theorem inferred_weights_witness:
  "configWeights (StaticConfig
           \<lparr>cfg_family = ''Inter'', cfg_subsets = [''latin''], cfg_formats = [Woff2],
            cfg_featureSettings = [], cfg_subsetSources = Map.empty\<rparr>
           None (Some [''normal''])) = None
   \<and> sorted (fst (determineProcessingTargets
        [\<lparr>font_id = 0,
          font_styleValues = \<lparr>sv_weight = SingleValue 700, sv_width = SingleValue 100,
            sv_italic = SingleValue 0, sv_slant = SingleValue 0\<rparr>\<rparr>,
         \<lparr>font_id = 1,
          font_styleValues = \<lparr>sv_weight = VariableValue 300 400 650,
            sv_width = SingleValue 100, sv_italic = SingleValue 0,
            sv_slant = SingleValue 0\<rparr>\<rparr>]
        (StaticConfig
           \<lparr>cfg_family = ''Inter'', cfg_subsets = [''latin''], cfg_formats = [Woff2],
            cfg_featureSettings = [], cfg_subsetSources = Map.empty\<rparr>
           None (Some [''normal'']))))
   \<and> fst (determineProcessingTargets
        [\<lparr>font_id = 0,
          font_styleValues = \<lparr>sv_weight = SingleValue 700, sv_width = SingleValue 100,
            sv_italic = SingleValue 0, sv_slant = SingleValue 0\<rparr>\<rparr>,
         \<lparr>font_id = 1,
          font_styleValues = \<lparr>sv_weight = VariableValue 300 400 650,
            sv_width = SingleValue 100, sv_italic = SingleValue 0,
            sv_slant = SingleValue 0\<rparr>\<rparr>]
        (StaticConfig
           \<lparr>cfg_family = ''Inter'', cfg_subsets = [''latin''], cfg_formats = [Woff2],
            cfg_featureSettings = [], cfg_subsetSources = Map.empty\<rparr>
           None (Some [''normal''])))
     = [300, 400, 500, 600, 650, 700]"
proof -
  have h: "configWeights (StaticConfig
           \<lparr>cfg_family = ''Inter'', cfg_subsets = [''latin''], cfg_formats = [Woff2],
            cfg_featureSettings = [], cfg_subsetSources = Map.empty\<rparr>
           None (Some [''normal''])) = None"
    by simp
  have v: "fst (determineProcessingTargets
        [\<lparr>font_id = 0,
          font_styleValues = \<lparr>sv_weight = SingleValue 700, sv_width = SingleValue 100,
            sv_italic = SingleValue 0, sv_slant = SingleValue 0\<rparr>\<rparr>,
         \<lparr>font_id = 1,
          font_styleValues = \<lparr>sv_weight = VariableValue 300 400 650,
            sv_width = SingleValue 100, sv_italic = SingleValue 0,
            sv_slant = SingleValue 0\<rparr>\<rparr>]
        (StaticConfig
           \<lparr>cfg_family = ''Inter'', cfg_subsets = [''latin''], cfg_formats = [Woff2],
            cfg_featureSettings = [], cfg_subsetSources = Map.empty\<rparr>
           None (Some [''normal''])))
     = [300, 400, 500, 600, 650, 700]"
    by (simp add: determineProcessingTargets_def targetsStep_def setAdd_def
        extractFontStyle_def Let_def)
  from inferred_weights [OF h] h v show ?thesis
    by blast
qed

section \<open>The axis constraints of a variable build\<close>




section \<open>Numbers as text\<close>

lemma digitChar_decimal: "d < 10 \<Longrightarrow> digitChar d \<in> set ''0123456789''"
proof -
  assume "d < 10"
  then have "d \<in> set [0..<10]" by simp
  then have "d \<in> {0, 1, 2, 3, 4, 5, 6, 7, 8, 9}"
    by (simp add: upt_rec numeral_eq_Suc)
  then show ?thesis
    by (auto simp: digitChar_def)
qed

lemma natToString_digits:
  "natToString n \<noteq> [] \<and> set (natToString n) \<subseteq> set ''0123456789''"
proof (induction n rule: natToString.induct)
  case (1 n)
  show ?case
  proof (cases "n < 10")
    case True
    then show ?thesis
      using digitChar_decimal [of n] by (subst (1 2) natToString.simps) simp
  next
    case False
    have "n mod 10 < 10" by simp
    then show ?thesis
      using 1 False digitChar_decimal [of "n mod 10"]
      by (subst (1 2) natToString.simps) simp
  qed
qed

lemma parseInt10_natToString: "parseInt10 (natToString n) = n"
proof (induction n rule: natToString.induct)
  case (1 n)
  show ?case
  proof (cases "n < 10")
    case True
    then show ?thesis
      by (subst natToString.simps) (simp add: parseInt10_def hexDigitValue_digitChar)
  next
    case False
    then show ?thesis
      using 1 by (subst natToString.simps) (simp add: parseInt10_def hexDigitValue_digitChar)
  qed
qed

lemma natToString_inj: "natToString m = natToString n \<Longrightarrow> m = n"
  by (metis parseInt10_natToString)

lemma numberToString_not_empty: "numberToString i \<noteq> []"
  using natToString_digits by (simp add: numberToString_def)

lemma hd_natToString: "hd (natToString n) \<in> set ''0123456789''"
  using natToString_digits [of n] by (cases "natToString n") auto

lemma last_numberToString: "last (numberToString i) \<in> set ''0123456789''"
proof -
  have "last (natToString n) \<in> set ''0123456789''" for n
    using natToString_digits [of n] last_in_set [of "natToString n"] by blast
  then show ?thesis
    using natToString_digits by (simp add: numberToString_def)
qed

lemma hd_numberToString: "hd (numberToString i) \<in> set ''-0123456789''"
  using hd_natToString [of "nat i"] by (auto simp: numberToString_def)

lemma numberToString_inj: "numberToString i = numberToString j \<Longrightarrow> i = j"
proof -
  assume eq: "numberToString i = numberToString j"
  have neg: "hd (numberToString k) = CHR ''-''" if "k < 0" for k
    using that by (simp add: numberToString_def)
  have pos: "hd (numberToString k) \<noteq> CHR ''-''" if "\<not> k < 0" for k
    using that hd_natToString [of "nat k"] by (auto simp: numberToString_def)
  show "i = j"
  proof (cases "i < 0")
    case True
    then have "j < 0"
      using eq neg pos by metis
    then have "natToString (nat (- i)) = natToString (nat (- j))"
      using True eq by (simp add: numberToString_def)
    then have "nat (- i) = nat (- j)"
      by (rule natToString_inj)
    then show ?thesis
      using True \<open>j < 0\<close> by simp
  next
    case False
    then have "\<not> j < 0"
      using eq neg pos by metis
    then have "natToString (nat i) = natToString (nat j)"
      using False eq by (simp add: numberToString_def)
    then have "nat i = nat j"
      by (rule natToString_inj)
    then show ?thesis
      using False \<open>\<not> j < 0\<close> by simp
  qed
qed

section \<open>The slicing-strategy parser\<close>

lemma splitOn_not_Nil: "splitOn sep s \<noteq> []"
  by (induction s) (auto split: list.splits)

lemma splitOn_append:
  "splitOn sep (a @ sep # b) = splitOn sep a @ splitOn sep b"
proof (induction a)
  case Nil
  then show ?case by simp
next
  case (Cons c a)
  obtain p ps where "splitOn sep a = p # ps"
    using splitOn_not_Nil [of sep a] by (cases "splitOn sep a") auto
  with Cons show ?case
    by simp
qed

lemma trim_open: "trim ''subsets {'' = ''subsets {''"
  by (simp add: trim_def isWhiteSpace_def)

lemma trim_close: "trim ''}'' = ''}''"
  by (simp add: trim_def isWhiteSpace_def)

lemma slicingStep_open:
  "slicingStep (slices, cur) ''subsets {''
     = ((case cur of Some c \<Rightarrow> slices @ [c] | None \<Rightarrow> slices), Some [])"
  by (simp add: slicingStep_def trim_open)

lemma slicingStep_close:
  "slicingStep (slices, cur) ''}''
     = (case cur of
          Some c \<Rightarrow> if c \<noteq> [] then (slices @ [c], None) else (slices, cur)
        | None \<Rightarrow> (slices, cur))"
  by (simp add: slicingStep_def trim_close startsWith_def split: option.split)

lemma slicingStep_other:
  assumes "trim line \<noteq> ''subsets {''" and "trim line \<noteq> ''}''"
  shows "fst (slicingStep st line) = fst st"
  using assms
  by (cases st) (simp add: slicingStep_def Let_def split: option.split)

lemma foldl_slicingStep_other:
  assumes "\<forall>line \<in> set ls. trim line \<noteq> ''subsets {'' \<and> trim line \<noteq> ''}''"
  shows "fst (foldl slicingStep st ls) = fst st"
  using assms
  by (induction ls arbitrary: st) (simp_all add: slicingStep_other)

lemma emittedSlices_append:
  "emittedSlices (pre @ newline @ post)
     = fst (foldl slicingStep (foldl slicingStep ([], None) (splitOn CHR 0x0A pre))
              (splitOn CHR 0x0A post))"
  by (simp add: emittedSlices_def newline_def splitOn_append)

lemma emittedSlices_open:
  "emittedSlices (pre @ newline @ ''subsets {'')
     = (case foldl slicingStep ([], None) (splitOn CHR 0x0A pre) of
          (slices, Some c) \<Rightarrow> slices @ [c]
        | (slices, None) \<Rightarrow> slices)"
  by (cases "foldl slicingStep ([], None) (splitOn CHR 0x0A pre)")
    (simp add: emittedSlices_append slicingStep_open split: option.split)

lemma state_after_open:
  "foldl slicingStep ([], None) (splitOn CHR 0x0A (pre @ newline @ ''subsets {''))
     = (emittedSlices (pre @ newline @ ''subsets {''), Some [])"
  by (cases "foldl slicingStep ([], None) (splitOn CHR 0x0A pre)")
    (simp add: emittedSlices_def newline_def splitOn_append slicingStep_open)

lemma slicingStep_opening:
  assumes "trim line = ''subsets {''"
  shows "slicingStep (slices, cur) line
     = ((case cur of Some c \<Rightarrow> slices @ [c] | None \<Rightarrow> slices), Some [])"
  using assms by (simp add: slicingStep_def)

lemma slicingStep_closing:
  assumes "trim line = ''}''"
  shows "slicingStep (slices, Some c) line
     = (if c \<noteq> [] then (slices @ [c], None) else (slices, Some c))"
  using assms by (simp add: slicingStep_def startsWith_def)

lemma slicingStep_idle:
  assumes "trim line \<noteq> ''subsets {''"
  shows "slicingStep (slices, None) line = (slices, None)"
  using assms by (simp add: slicingStep_def Let_def split: option.split)

lemma foldl_slicingStep_idle:
  assumes "\<forall>line \<in> set ls. trim line \<noteq> ''subsets {''"
  shows "foldl slicingStep (slices, None) ls = (slices, None)"
  using assms by (induction ls) (simp_all add: slicingStep_idle)

lemma matchCodepoints_digits:
  assumes "ds \<noteq> []" and "set ds \<subseteq> set ''0123456789''"
  shows "matchCodepoints (''codepoints: '' @ ds) = Some ds"
proof -
  have "isDigit c" if "c \<in> set ds" for c
    unfolding isDigit_def using assms(2) that by (rule subsetD)
  then have "\<forall>c \<in> set ds. isDigit c"
    by blast
  then have tw: "takeWhile isDigit ds = ds"
    by (simp add: takeWhile_eq_all_conv)
  define s where "s = ''odepoints: '' @ ds"
  have e: "''codepoints: '' @ ds = CHR ''c'' # s"
    by (simp add: s_def)
  have p: "prefix ''codepoints: '' (CHR ''c'' # s) = True"
    by (simp add: s_def)
  have d: "drop 12 (CHR ''c'' # s) = ds"
    by (simp add: s_def)
  have ne: "(ds \<noteq> []) = True"
    using assms(1) by simp
  show ?thesis
    unfolding e
    by (simp only: matchCodepoints.simps Let_def p d tw ne if_True simp_thms)
qed

lemma slicingStep_codepoint:
  assumes "trim line = ''codepoints: '' @ natToString n"
  shows "slicingStep (slices, Some c) line = (slices, Some (c @ [n]))"
proof -
  have d: "natToString n \<noteq> []" "set (natToString n) \<subseteq> set ''0123456789''"
    using natToString_digits by blast+
  have m: "matchCodepoints (''codepoints: '' @ natToString n) = Some (natToString n)"
    by (rule matchCodepoints_digits [OF d])
  have o: "(''codepoints: '' @ natToString n = ''subsets {'') = False"
    by simp
  have s: "startsWith (''codepoints: '' @ natToString n) ''codepoints:'' = True"
    by (simp add: startsWith_def)
  show ?thesis
    unfolding slicingStep_def
    by (simp only: Let_def prod.case assms m o s if_True if_False option.case
        parseInt10_natToString)
qed

lemma foldl_slicingStep_codepoints:
  assumes "map trim ls = map (\<lambda>n. ''codepoints: '' @ natToString n) cps"
  shows "foldl slicingStep (slices, Some c) ls = (slices, Some (c @ cps))"
  using assms
proof (induction cps arbitrary: ls c)
  case Nil
  then show ?case by simp
next
  case (Cons n cps)
  then obtain l ls' where ls: "ls = l # ls'" and l: "trim l = ''codepoints: '' @ natToString n"
    and rest: "map trim ls' = map (\<lambda>n. ''codepoints: '' @ natToString n) cps"
    by (cases ls) auto
  show ?case
    unfolding ls using Cons.IH [OF rest, of "c @ [n]"]
    by (simp only: foldl_Cons slicingStep_codepoint [OF l] append_assoc append_Cons
        append_Nil)
qed

lemma foldl_slicingStep_block:
  assumes "map trim ls = blockLines cps" and "cps \<noteq> []"
  shows "foldl slicingStep (slices, None) ls = (slices @ [cps], None)"
proof -
  from assms(1) obtain firstLine rest where ls: "ls = firstLine # rest"
    and op: "trim firstLine = ''subsets {''"
    and r: "map trim rest = map (\<lambda>n. ''codepoints: '' @ natToString n) cps @ [''}'']"
    unfolding blockLines_def by (cases ls) auto
  from r obtain body tl where rest0: "rest = body @ tl"
    and body: "map trim body = map (\<lambda>n. ''codepoints: '' @ natToString n) cps"
    and tl: "map trim tl = [''}'']"
    unfolding map_eq_append_conv by metis
  from tl obtain lastLine where tl2: "tl = [lastLine]" and cl: "trim lastLine = ''}''"
    by (cases tl) simp_all
  have rest: "rest = body @ [lastLine]"
    using rest0 tl2 by simp
  have "foldl slicingStep (slices, None) ls
      = slicingStep (foldl slicingStep (slices, Some []) body) lastLine"
    unfolding ls rest by (simp add: slicingStep_opening [OF op])
  also have "\<dots> = slicingStep (slices, Some cps) lastLine"
    using foldl_slicingStep_codepoints [OF body, of slices "[]"] by simp
  also have "\<dots> = (slices @ [cps], None)"
    using assms(2) by (simp add: slicingStep_closing [OF cl])
  finally show ?thesis .
qed

lemma foldl_slicingStep_blocks:
  assumes "map trim ls = concat (map blockLines blocks)" and "\<forall>b \<in> set blocks. b \<noteq> []"
  shows "foldl slicingStep (slices, None) ls = (slices @ blocks, None)"
  using assms
proof (induction blocks arbitrary: ls slices)
  case Nil
  then have "ls = []" by simp
  then show ?case by simp
next
  case (Cons b blocks)
  have c: "concat (map blockLines (b # blocks)) = blockLines b @ concat (map blockLines blocks)"
    by simp
  from Cons.prems(1) have "map trim ls = blockLines b @ concat (map blockLines blocks)"
    unfolding c .
  then have "\<exists>ls1 ls2. ls = ls1 @ ls2 \<and> blockLines b = map trim ls1
      \<and> concat (map blockLines blocks) = map trim ls2"
    by (rule iffD1 [OF map_eq_append_conv])
  then obtain ls1 ls2 where ls: "ls = ls1 @ ls2"
    and b: "map trim ls1 = blockLines b"
    and r: "map trim ls2 = concat (map blockLines blocks)"
    by metis
  have ne: "b \<noteq> []" and rest: "\<forall>b \<in> set blocks. b \<noteq> []"
    using Cons.prems(2) by simp_all
  have "foldl slicingStep (slices, None) ls
      = foldl slicingStep (slices @ [b], None) ls2"
    unfolding ls foldl_append foldl_slicingStep_block [OF b ne] ..
  also have "\<dots> = ((slices @ [b]) @ blocks, None)"
    by (rule Cons.IH [OF r rest])
  finally show ?case by simp
qed

lemma emittedSlices_listsBlocks:
  assumes "listsBlocks fileContent blocks" and "\<forall>b \<in> set blocks. b \<noteq> []"
  shows "emittedSlices fileContent = blocks"
proof -
  from assms(1) obtain header body footer
    where lines: "splitOn CHR 0x0A fileContent = header @ body @ footer"
      and idle: "\<forall>line \<in> set (header @ footer). trim line \<noteq> ''subsets {''"
      and body: "map trim body = concat (map blockLines blocks)"
    unfolding listsBlocks_def by blast
  have h: "foldl slicingStep ([], None) header = ([], None)"
    using idle by (intro foldl_slicingStep_idle) simp
  have b: "foldl slicingStep ([], None) body = (blocks, None)"
    using foldl_slicingStep_blocks [OF body assms(2), of "[]"] by simp
  have f: "foldl slicingStep (blocks, None) footer = (blocks, None)"
    using idle by (intro foldl_slicingStep_idle) simp
  show ?thesis
    by (simp add: emittedSlices_def lines h b f)
qed

text \<open>
  C9, as the code has it. A closing marker emits the current block only when the block
  holds a codepoint. After any text \<open>pre\<close>: a block that is opened and closed with no
  codepoint emits nothing when the input ends there; it is emitted, as an empty slice,
  when another block is opened after it; a block that is opened and followed only
  by lines that neither open nor close a block is dropped at the end of the input, with
  the codepoints it holds; and a block that is opened, holds the codepoints of its
  lines and is not closed is emitted when another block is opened after it. The parser
  returns the emitted slices in reverse.
\<close>

theorem slicing_block_emission:
  "emittedSlices (pre @ newline @ ''subsets {'' @ newline @ ''}'')
     = emittedSlices (pre @ newline @ ''subsets {'')
   \<and> emittedSlices (pre @ newline @ ''subsets {'' @ newline @ ''}'' @ newline @ ''subsets {'')
     = emittedSlices (pre @ newline @ ''subsets {'') @ [[]]
   \<and> ((\<forall>line \<in> set (splitOn CHR 0x0A body). trim line \<noteq> ''subsets {'' \<and> trim line \<noteq> ''}'')
        \<longrightarrow> emittedSlices (pre @ newline @ ''subsets {'' @ newline @ body)
          = emittedSlices (pre @ newline @ ''subsets {''))
   \<and> parseSlicingStrategy (pre @ newline @ ''subsets {'' @ newline @ body)
     = rev (emittedSlices (pre @ newline @ ''subsets {'' @ newline @ body))
   \<and> (map trim (splitOn CHR 0x0A unclosed)
          = map (\<lambda>c. ''codepoints: '' @ natToString c) codepoints
        \<longrightarrow> emittedSlices
              (pre @ newline @ ''subsets {'' @ newline @ unclosed @ newline @ ''subsets {'')
          = emittedSlices (pre @ newline @ ''subsets {'') @ [codepoints])"
proof -
  let ?o = "pre @ newline @ ''subsets {''"
  have st: "foldl slicingStep ([], None) (splitOn CHR 0x0A ?o) = (emittedSlices ?o, Some [])"
    by (rule state_after_open)
  have a: "emittedSlices (?o @ newline @ ''}'') = emittedSlices ?o"
    by (simp only: emittedSlices_append st) (simp add: slicingStep_close)
  have b: "emittedSlices ((?o @ newline @ ''}'') @ newline @ ''subsets {'')
      = emittedSlices ?o @ [[]]"
  proof -
    have "foldl slicingStep ([], None) (splitOn CHR 0x0A (?o @ newline @ ''}''))
        = (emittedSlices ?o, Some [])"
      using st by (simp add: newline_def splitOn_append slicingStep_close)
    then show ?thesis
      by (simp only: emittedSlices_append) (simp add: slicingStep_open)
  qed
  have c: "emittedSlices (?o @ newline @ body) = emittedSlices ?o"
    if "\<forall>line \<in> set (splitOn CHR 0x0A body). trim line \<noteq> ''subsets {'' \<and> trim line \<noteq> ''}''"
    by (simp only: emittedSlices_append st foldl_slicingStep_other [OF that]) simp
  have d: "emittedSlices ((?o @ newline @ unclosed) @ newline @ ''subsets {'')
      = emittedSlices ?o @ [codepoints]"
    if "map trim (splitOn CHR 0x0A unclosed)
          = map (\<lambda>c. ''codepoints: '' @ natToString c) codepoints"
  proof -
    have "foldl slicingStep ([], None) (splitOn CHR 0x0A (?o @ newline @ unclosed))
        = foldl slicingStep (emittedSlices ?o, Some []) (splitOn CHR 0x0A unclosed)"
      using st by (simp add: newline_def splitOn_append)
    also have "\<dots> = (emittedSlices ?o, Some codepoints)"
      using foldl_slicingStep_codepoints [OF that, of "emittedSlices ?o" "[]"] by simp
    finally show ?thesis
      by (simp only: emittedSlices_append) (simp add: slicingStep_open)
  qed
  from a b c d show ?thesis
    by (simp add: parseSlicingStrategy_def)
qed

theorem slicing_block_emission_witness:
  "emittedSlices ((''subsets {'' @ newline @ ''codepoints: 5'' @ newline @ ''}'')
      @ newline @ ''subsets {'' @ newline @ ''}'') = [[5]]
   \<and> emittedSlices ((''subsets {'' @ newline @ ''codepoints: 5'' @ newline @ ''}'')
      @ newline @ ''subsets {'' @ newline @ ''}'' @ newline @ ''subsets {'') = [[5], []]
   \<and> emittedSlices ((''subsets {'' @ newline @ ''codepoints: 5'' @ newline @ ''}'')
      @ newline @ ''subsets {'' @ newline @ ''  codepoints: 7'') = [[5]]
   \<and> emittedSlices ((''subsets {'' @ newline @ ''codepoints: 5'' @ newline @ ''}'')
      @ newline @ ''subsets {'' @ newline @ ''  codepoints: 7'' @ newline @ ''subsets {'')
     = [[5], [7]]"
proof -
  have h: "\<forall>line \<in> set (splitOn CHR 0x0A ''  codepoints: 7'').
      trim line \<noteq> ''subsets {'' \<and> trim line \<noteq> ''}''"
    by (simp add: trim_def isWhiteSpace_def)
  have u: "map trim (splitOn CHR 0x0A ''  codepoints: 7'')
      = map (\<lambda>c. ''codepoints: '' @ natToString c) [7]"
    by (simp add: trim_def isWhiteSpace_def natToString.simps digitChar_def)
  have v: "emittedSlices ((''subsets {'' @ newline @ ''codepoints: 5'' @ newline @ ''}'')
      @ newline @ ''subsets {'') = [[5]]"
    by (simp add: emittedSlices_def newline_def slicingStep_def trim_def isWhiteSpace_def
        startsWith_def isDigit_def parseInt10_def hexDigitValue_def)
  from slicing_block_emission
    [where pre = "''subsets {'' @ newline @ ''codepoints: 5'' @ newline @ ''}''"
       and body = "''  codepoints: 7''" and unclosed = "''  codepoints: 7''"
       and codepoints = "[7]"]
    h u v
  show ?thesis
    by simp
qed

text \<open>
  C9, as the claim has it, fails on both counts. A block that is opened and closed with
  no codepoint, at the end of the input, emits no slice. A block that never reaches a
  closing marker is emitted when another block is opened after it.
\<close>

theorem slicing_block_emission_counterexample:
  "parseSlicingStrategy (''subsets {'' @ newline @ ''}'') = []
   \<and> parseSlicingStrategy
        (''subsets {'' @ newline @ ''codepoints: 1'' @ newline @ ''subsets {'' @ newline
           @ ''codepoints: 2'') = [[1]]"
  by (simp add: parseSlicingStrategy_def emittedSlices_def newline_def slicingStep_def
      trim_def isWhiteSpace_def startsWith_def isDigit_def parseInt10_def hexDigitValue_def)

section \<open>The slices of a sliced subset\<close>

lemma sliced_enumerate:
  "map slice_index
     (map (\<lambda>(i, codepoints). \<lparr>slice_index = i + 1, slice_codepoints = codepoints\<rparr>)
        (enumerate 0 xs)) = [1..<Suc (length xs)]"
  "map slice_codepoints
     (map (\<lambda>(i, codepoints). \<lparr>slice_index = i + 1, slice_codepoints = codepoints\<rparr>)
        (enumerate 0 xs)) = xs"
proof -
  have "map slice_index
     (map (\<lambda>(i, codepoints). \<lparr>slice_index = i + 1, slice_codepoints = codepoints\<rparr>)
        (enumerate 0 xs)) = map (\<lambda>p. Suc (fst p)) (enumerate 0 xs)"
    by (simp add: comp_def case_prod_beta)
  also have "\<dots> = map Suc (map fst (enumerate 0 xs))"
    by (simp only: map_map comp_def)
  also have "\<dots> = map Suc [0..<0 + length xs]"
    by (simp only: map_fst_enumerate)
  also have "\<dots> = [1..<Suc (length xs)]"
    by (simp add: map_Suc_upt del: upt_Suc)
  finally show "map slice_index
     (map (\<lambda>(i, codepoints). \<lparr>slice_index = i + 1, slice_codepoints = codepoints\<rparr>)
        (enumerate 0 xs)) = [1..<Suc (length xs)]" .
  have "map slice_codepoints
     (map (\<lambda>(i, codepoints). \<lparr>slice_index = i + 1, slice_codepoints = codepoints\<rparr>)
        (enumerate 0 xs)) = map snd (enumerate 0 xs)"
    by (simp add: comp_def case_prod_beta)
  then show "map slice_codepoints
     (map (\<lambda>(i, codepoints). \<lparr>slice_index = i + 1, slice_codepoints = codepoints\<rparr>)
        (enumerate 0 xs)) = xs"
    by (simp add: enumerate_eq_zip)
qed

lemma those_Some:
  assumes "None \<notin> set xs"
  shows "\<exists>ys. those xs = Some ys"
  using assms
proof (induction xs)
  case Nil
  then show ?case by simp
next
  case (Cons x xs)
  then obtain ys where "those xs = Some ys"
    by auto
  moreover obtain y where "x = Some y"
    using Cons.prems by (cases x) auto
  ultimately show ?case
    by simp
qed

lemma stringIncludes_not_empty: "stringIncludes fileContent ''subsets {'' \<Longrightarrow> fileContent \<noteq> []"
  by (cases fileContent) simp_all

lemma subsetDataStep_keeps:
  assumes src: "cfg_subsetSources (baseConfig config) name = Some fileContent"
    and sliced: "stringIncludes fileContent ''subsets {''"
    and parses: "case cfg_subsetSources (baseConfig config) nm of
          None \<Rightarrow> True
        | Some content \<Rightarrow>
            content = [] \<or> stringIncludes content ''subsets {''
            \<or> None \<notin> set (parseNamFile content)"
    and def: "def = SlicedSubset name
        (map (\<lambda>(i, codepoints). \<lparr>slice_index = i + 1, slice_codepoints = codepoints\<rparr>)
           (enumerate 0 (parseSlicingStrategy fileContent)))"
  shows "\<exists>ws' m'. subsetDataStep config (Some (ws, m)) nm = Some (ws', m')
      \<and> (nm = name \<or> m name = Some def \<longrightarrow> m' name = Some def)"
proof (cases "nm = name")
  case True
  have "fileContent \<noteq> []"
    using sliced by (rule stringIncludes_not_empty)
  then show ?thesis
    using True src sliced def by (simp add: subsetDataStep_def Let_def)
next
  case other: False
  show ?thesis
  proof (cases "cfg_subsetSources (baseConfig config) nm")
    case None
    then show ?thesis
      using other by (simp add: subsetDataStep_def)
  next
    case (Some content)
    show ?thesis
    proof (cases "content = []")
      case True
      then show ?thesis
        using other Some by (simp add: subsetDataStep_def)
    next
      case False
      show ?thesis
      proof (cases "stringIncludes content ''subsets {''")
        case True
        then show ?thesis
          using other Some False by (simp add: subsetDataStep_def Let_def)
      next
        case flat: False
        have "None \<notin> set (parseNamFile content)"
          using parses Some False flat by simp
        then obtain codepoints where "those (parseNamFile content) = Some codepoints"
          using those_Some by blast
        then show ?thesis
          using other Some False flat by (simp add: subsetDataStep_def Let_def)
      qed
    qed
  qed
qed

lemma foldl_subsetDataStep_keeps:
  assumes src: "cfg_subsetSources (baseConfig config) name = Some fileContent"
    and sliced: "stringIncludes fileContent ''subsets {''"
    and parses: "\<forall>nm \<in> set names.
        case cfg_subsetSources (baseConfig config) nm of
          None \<Rightarrow> True
        | Some content \<Rightarrow>
            content = [] \<or> stringIncludes content ''subsets {''
            \<or> None \<notin> set (parseNamFile content)"
    and def: "def = SlicedSubset name
        (map (\<lambda>(i, codepoints). \<lparr>slice_index = i + 1, slice_codepoints = codepoints\<rparr>)
           (enumerate 0 (parseSlicingStrategy fileContent)))"
  shows "\<exists>ws' m'. foldl (subsetDataStep config) (Some (ws, m)) names = Some (ws', m')
      \<and> (name \<in> set names \<or> m name = Some def \<longrightarrow> m' name = Some def)"
  using parses
proof (induction names arbitrary: ws m)
  case Nil
  then show ?case by simp
next
  case (Cons nm names)
  have p: "case cfg_subsetSources (baseConfig config) nm of
          None \<Rightarrow> True
        | Some content \<Rightarrow>
            content = [] \<or> stringIncludes content ''subsets {''
            \<or> None \<notin> set (parseNamFile content)"
    using Cons.prems by simp
  obtain ws1 m1 where step: "subsetDataStep config (Some (ws, m)) nm = Some (ws1, m1)"
    and keep1: "nm = name \<or> m name = Some def \<longrightarrow> m1 name = Some def"
    using subsetDataStep_keeps [OF src sliced p def, of ws m] by blast
  have rest: "\<forall>nm \<in> set names.
        case cfg_subsetSources (baseConfig config) nm of
          None \<Rightarrow> True
        | Some content \<Rightarrow>
            content = [] \<or> stringIncludes content ''subsets {''
            \<or> None \<notin> set (parseNamFile content)"
    using Cons.prems by simp
  obtain ws' m' where
    run: "foldl (subsetDataStep config) (Some (ws1, m1)) names = Some (ws', m')"
    and keep: "name \<in> set names \<or> m1 name = Some def \<longrightarrow> m' name = Some def"
    using Cons.IH [OF rest, of ws1 m1] by blast
  have "foldl (subsetDataStep config) (Some (ws, m)) (nm # names) = Some (ws', m')"
    using step run by simp
  moreover have "name \<in> set (nm # names) \<or> m name = Some def \<longrightarrow> m' name = Some def"
    using keep1 keep by auto
  ultimately show ?case
    by blast
qed

text \<open>
  C2: take a build whose flat codepoint lists parse, and a requested subset whose source
  text holds \<open>subsets {\<close>. The subset data exists and gives this subset as a
  sliced subset; its slices carry the indices 1, 2, ... in this order and hold the
  slices that the parser loop pushed, in reverse. When the source text lists the blocks
  \<open>blocks\<close>, each with at least one codepoint, there is one slice for each block, and
  the block at position \<open>k\<close> (from 0) of the \<open>N\<close> blocks of the text is the slice
  of index \<open>N - k\<close>: the block that appears last is the slice of index 1.
\<close>

theorem sliced_indices_reversed:
  assumes requested: "name \<in> set (cfg_subsets (baseConfig config))"
    and src: "cfg_subsetSources (baseConfig config) name = Some fileContent"
    and sliced: "stringIncludes fileContent ''subsets {''"
    and parses: "flatSourcesParse config"
  shows "\<exists>warnings subsetData slices.
      generateSubsetData config = Some (warnings, subsetData)
      \<and> subsetData name = Some (SlicedSubset name slices)
      \<and> map slice_index slices = [1..<Suc (length slices)]
      \<and> map slice_codepoints slices = rev (emittedSlices fileContent)
      \<and> (\<forall>blocks. listsBlocks fileContent blocks \<and> (\<forall>block \<in> set blocks. block \<noteq> [])
            \<longrightarrow> length slices = length blocks
              \<and> (\<forall>k < length blocks.
                    slices ! (length blocks - 1 - k)
                      = \<lparr>slice_index = length blocks - k,
                         slice_codepoints = blocks ! k\<rparr>))"
proof -
  define slices where "slices =
    map (\<lambda>(i, codepoints). \<lparr>slice_index = i + 1, slice_codepoints = codepoints\<rparr>)
      (enumerate 0 (parseSlicingStrategy fileContent))"
  define def where "def = SlicedSubset name slices"
  have d: "def = SlicedSubset name
        (map (\<lambda>(i, codepoints). \<lparr>slice_index = i + 1, slice_codepoints = codepoints\<rparr>)
           (enumerate 0 (parseSlicingStrategy fileContent)))"
    by (simp add: def_def slices_def)
  have p: "\<forall>nm \<in> set (cfg_subsets (baseConfig config)).
        case cfg_subsetSources (baseConfig config) nm of
          None \<Rightarrow> True
        | Some content \<Rightarrow>
            content = [] \<or> stringIncludes content ''subsets {''
            \<or> None \<notin> set (parseNamFile content)"
    using parses unfolding flatSourcesParse_def .
  obtain warnings subsetData where
    run: "generateSubsetData config = Some (warnings, subsetData)"
    and found: "subsetData name = Some (SlicedSubset name slices)"
    using foldl_subsetDataStep_keeps [OF src sliced p d, of "[]" Map.empty] requested
    unfolding generateSubsetData_def def_def by blast
  let ?E = "emittedSlices fileContent"
  have len: "length slices = length ?E"
    by (simp add: slices_def parseSlicingStrategy_def)
  have idx: "map slice_index slices = [1..<Suc (length slices)]"
    using sliced_enumerate(1) [of "parseSlicingStrategy fileContent"] len
    by (simp add: slices_def parseSlicingStrategy_def)
  have cps: "map slice_codepoints slices = rev ?E"
    using sliced_enumerate(2) [of "parseSlicingStrategy fileContent"]
    by (simp add: slices_def parseSlicingStrategy_def)
  have nth: "slices ! (length ?E - 1 - k)
              = \<lparr>slice_index = length ?E - k, slice_codepoints = ?E ! k\<rparr>"
    if k: "k < length ?E" for k
  proof -
    let ?j = "length ?E - 1 - k"
    have j: "?j < length slices"
      using k len by simp
    have "slice_index (slices ! ?j) = map slice_index slices ! ?j"
      using j by simp
    also have "\<dots> = length ?E - k"
      using idx j k len by (simp del: upt_Suc)
    finally have i: "slice_index (slices ! ?j) = length ?E - k" .
    have "slice_codepoints (slices ! ?j) = map slice_codepoints slices ! ?j"
      using j by simp
    also have "\<dots> = rev ?E ! ?j"
      using cps by simp
    also have "\<dots> = ?E ! k"
      using k by (simp add: rev_nth)
    finally have c: "slice_codepoints (slices ! ?j) = ?E ! k" .
    from i c show ?thesis
      by (cases "slices ! ?j") simp
  qed
  have listed: "length slices = length blocks
      \<and> (\<forall>k < length blocks.
            slices ! (length blocks - 1 - k)
              = \<lparr>slice_index = length blocks - k, slice_codepoints = blocks ! k\<rparr>)"
    if "listsBlocks fileContent blocks \<and> (\<forall>block \<in> set blocks. block \<noteq> [])" for blocks
  proof -
    have "?E = blocks"
      using that emittedSlices_listsBlocks by blast
    then show ?thesis
      using len nth by simp
  qed
  from run found idx cps listed show ?thesis
    by blast
qed

theorem sliced_indices_reversed_witness:
  "flatSourcesParse
     (StaticConfig
        \<lparr>cfg_family = ''Noto Sans JP'', cfg_subsets = [''japanese''], cfg_formats = [Woff2],
         cfg_featureSettings = [],
         cfg_subsetSources =
           [''japanese'' \<mapsto> ''SlicingStrategy {'' @ newline
              @ ''  subsets {'' @ newline @ ''    codepoints: 1'' @ newline @ ''  }''
              @ newline @ ''  subsets {'' @ newline @ ''    codepoints: 2'' @ newline
              @ ''    codepoints: 3'' @ newline @ ''  }'' @ newline @ ''}'']\<rparr>
        (Some [400]) (Some [''normal'']))
   \<and> listsBlocks
       (''SlicingStrategy {'' @ newline
          @ ''  subsets {'' @ newline @ ''    codepoints: 1'' @ newline @ ''  }''
          @ newline @ ''  subsets {'' @ newline @ ''    codepoints: 2'' @ newline
          @ ''    codepoints: 3'' @ newline @ ''  }'' @ newline @ ''}'')
       [[1], [2, 3]]
   \<and> (\<exists>warnings subsetData.
        generateSubsetData
          (StaticConfig
             \<lparr>cfg_family = ''Noto Sans JP'', cfg_subsets = [''japanese''],
              cfg_formats = [Woff2], cfg_featureSettings = [],
              cfg_subsetSources =
                [''japanese'' \<mapsto> ''SlicingStrategy {'' @ newline
                   @ ''  subsets {'' @ newline @ ''    codepoints: 1'' @ newline @ ''  }''
                   @ newline @ ''  subsets {'' @ newline @ ''    codepoints: 2'' @ newline
                   @ ''    codepoints: 3'' @ newline @ ''  }'' @ newline @ ''}'']\<rparr>
             (Some [400]) (Some [''normal'']))
          = Some (warnings, subsetData)
        \<and> subsetData ''japanese''
          = Some (SlicedSubset ''japanese''
              [\<lparr>slice_index = 1, slice_codepoints = [2, 3]\<rparr>,
               \<lparr>slice_index = 2, slice_codepoints = [1]\<rparr>]))"
proof -
  let ?src = "''SlicingStrategy {'' @ newline
          @ ''  subsets {'' @ newline @ ''    codepoints: 1'' @ newline @ ''  }''
          @ newline @ ''  subsets {'' @ newline @ ''    codepoints: 2'' @ newline
          @ ''    codepoints: 3'' @ newline @ ''  }'' @ newline @ ''}''"
  let ?cfg = "StaticConfig
        \<lparr>cfg_family = ''Noto Sans JP'', cfg_subsets = [''japanese''], cfg_formats = [Woff2],
         cfg_featureSettings = [], cfg_subsetSources = [''japanese'' \<mapsto> ?src]\<rparr>
        (Some [400]) (Some [''normal''])"
  have i: "stringIncludes ?src ''subsets {''"
    by (simp add: newline_def)
  have f: "flatSourcesParse ?cfg"
    unfolding flatSourcesParse_def using i
    by (simp del: stringIncludes.simps append.simps)
  have "splitOn CHR 0x0A ?src
      = [''SlicingStrategy {''] @
        [''  subsets {'', ''    codepoints: 1'', ''  }'',
         ''  subsets {'', ''    codepoints: 2'', ''    codepoints: 3'', ''  }''] @ [''}'']
      \<and> (\<forall>line \<in> set ([''SlicingStrategy {''] @ [''}'']). trim line \<noteq> ''subsets {'')
      \<and> map trim [''  subsets {'', ''    codepoints: 1'', ''  }'',
           ''  subsets {'', ''    codepoints: 2'', ''    codepoints: 3'', ''  }'']
        = concat (map blockLines [[1], [2, 3]])"
    by (simp add: newline_def trim_def isWhiteSpace_def blockLines_def natToString.simps
        digitChar_def)
  then have l: "listsBlocks ?src [[1], [2, 3]]"
    unfolding listsBlocks_def by blast
  have r: "''japanese'' \<in> set (cfg_subsets (baseConfig ?cfg))"
    by simp
  have s: "cfg_subsetSources (baseConfig ?cfg) ''japanese'' = Some ?src"
    by simp
  from sliced_indices_reversed [OF r s i f]
  obtain warnings subsetData slices where
    run: "generateSubsetData ?cfg = Some (warnings, subsetData)"
    and found: "subsetData ''japanese'' = Some (SlicedSubset ''japanese'' slices)"
    and listed: "\<forall>blocks. listsBlocks ?src blocks \<and> (\<forall>block \<in> set blocks. block \<noteq> [])
            \<longrightarrow> length slices = length blocks
              \<and> (\<forall>k < length blocks.
                    slices ! (length blocks - 1 - k)
                      = \<lparr>slice_index = length blocks - k,
                         slice_codepoints = blocks ! k\<rparr>)"
    by blast
  from listed l have len: "length slices = 2"
    and nth: "\<forall>k < 2. slices ! (2 - 1 - k)
        = \<lparr>slice_index = 2 - k, slice_codepoints = [[1], [2, 3]] ! k\<rparr>"
    by fastforce+
  from nth have "slices ! 1 = \<lparr>slice_index = 2, slice_codepoints = [1]\<rparr>"
    and "slices ! 0 = \<lparr>slice_index = 1, slice_codepoints = [2, 3]\<rparr>"
    by (fastforce, fastforce dest: spec [of _ 1])
  with len have "slices = [\<lparr>slice_index = 1, slice_codepoints = [2, 3]\<rparr>,
               \<lparr>slice_index = 2, slice_codepoints = [1]\<rparr>]"
    by (cases slices; cases "tl slices") auto
  with run found f l show ?thesis
    by blast
qed

section \<open>The default stylesheet\<close>

subsection \<open>The names of the stylesheets\<close>

lemma weight_css_not_index:
  "numberToString w @ ''.css'' \<noteq> ''index.css''"
  "numberToString w @ ''-italic.css'' \<noteq> ''index.css''"
proof -
  have "hd (numberToString w @ s) \<noteq> CHR ''i''" for s
    using hd_numberToString [of w] numberToString_not_empty [of w] by auto
  then show "numberToString w @ ''.css'' \<noteq> ''index.css''"
    "numberToString w @ ''-italic.css'' \<noteq> ''index.css''"
    by (metis list.sel(1))+
qed

lemma italic_css_not_normal:
  "numberToString w @ ''-italic.css'' \<noteq> numberToString d @ ''.css''"
proof
  assume "numberToString w @ ''-italic.css'' = numberToString d @ ''.css''"
  then have "(numberToString w @ ''-italic'') @ ''.css'' = numberToString d @ ''.css''"
    by simp
  then have "numberToString d = numberToString w @ ''-italic''"
    by (simp only: append_same_eq)
  then have "last (numberToString d) = CHR ''c''"
    by simp
  then show False
    using last_numberToString [of d] by auto
qed

lemma normal_css_eq: "numberToString w @ ''.css'' = numberToString d @ ''.css'' \<longleftrightarrow> w = d"
  using numberToString_inj by auto

subsection \<open>The weight closest to 400\<close>

lemma closerTo400_cases: "closerTo400 a b = a \<or> closerTo400 a b = b"
  by (simp add: closerTo400_def Let_def)

lemma closerTo400_best:
  "abs (closerTo400 a b - 400) < abs (x - 400)
     \<or> (abs (closerTo400 a b - 400) = abs (x - 400) \<and> x \<le> closerTo400 a b)"
  if "x = b \<or> abs (a - 400) < abs (x - 400) \<or> (abs (a - 400) = abs (x - 400) \<and> x \<le> a)"
  using that by (auto simp: closerTo400_def Let_def)

lemma foldl_closerTo400:
  "foldl closerTo400 a ws \<in> set (a # ws)
   \<and> (\<forall>x. x \<in> set ws \<or> abs (a - 400) < abs (x - 400)
            \<or> (abs (a - 400) = abs (x - 400) \<and> x \<le> a) \<longrightarrow>
          abs (foldl closerTo400 a ws - 400) < abs (x - 400)
          \<or> (abs (foldl closerTo400 a ws - 400) = abs (x - 400)
              \<and> x \<le> foldl closerTo400 a ws))"
proof (induction ws arbitrary: a)
  case Nil
  then show ?case by simp
next
  case (Cons w ws)
  have mem: "foldl closerTo400 (closerTo400 a w) ws \<in> set (a # w # ws)"
    using Cons.IH [of "closerTo400 a w"] closerTo400_cases [of a w] by auto
  have best: "abs (foldl closerTo400 (closerTo400 a w) ws - 400) < abs (x - 400)
          \<or> (abs (foldl closerTo400 (closerTo400 a w) ws - 400) = abs (x - 400)
              \<and> x \<le> foldl closerTo400 (closerTo400 a w) ws)"
    if "x \<in> set (w # ws) \<or> abs (a - 400) < abs (x - 400)
            \<or> (abs (a - 400) = abs (x - 400) \<and> x \<le> a)" for x
  proof (cases "x \<in> set ws")
    case True
    then show ?thesis
      using Cons.IH [of "closerTo400 a w"] by blast
  next
    case False
    then have "x = w \<or> abs (a - 400) < abs (x - 400)
        \<or> (abs (a - 400) = abs (x - 400) \<and> x \<le> a)"
      using that by auto
    then have "abs (closerTo400 a w - 400) < abs (x - 400)
     \<or> (abs (closerTo400 a w - 400) = abs (x - 400) \<and> x \<le> closerTo400 a w)"
      by (rule closerTo400_best)
    then show ?thesis
      using Cons.IH [of "closerTo400 a w"] by blast
  qed
  from mem best show ?case
    by simp
qed

lemma defaultWeightOf_closest:
  assumes "defaultWeightOf ws = Some d"
  shows "d \<in> set ws"
    and "\<forall>w \<in> set ws. abs (d - 400) < abs (w - 400)
            \<or> (abs (d - 400) = abs (w - 400) \<and> w \<le> d)"
proof -
  obtain a rest where ws: "ws = a # rest" and d: "d = foldl closerTo400 a rest"
    using assms by (cases ws) auto
  show "d \<in> set ws"
    using foldl_closerTo400 [of a rest] ws d by simp
  show "\<forall>w \<in> set ws. abs (d - 400) < abs (w - 400)
            \<or> (abs (d - 400) = abs (w - 400) \<and> w \<le> d)"
  proof
    fix w assume "w \<in> set ws"
    then have "w \<in> set rest \<or> abs (a - 400) < abs (w - 400)
            \<or> (abs (a - 400) = abs (w - 400) \<and> w \<le> a)"
      using ws by auto
    then show "abs (d - 400) < abs (w - 400)
            \<or> (abs (d - 400) = abs (w - 400) \<and> w \<le> d)"
      using foldl_closerTo400 [of a rest] d by blast
  qed
qed

lemma defaultWeightOf_Some: "ws \<noteq> [] \<Longrightarrow> \<exists>d. defaultWeightOf ws = Some d"
  by (cases ws) auto

lemma staticCssAssets_mem:
  "asset \<in> set (staticCssAssets family subsets allVariants weights styles) \<longleftrightarrow>
     (\<exists>weight \<in> set weights. \<exists>style \<in> set styles.
        generateStaticCSS family weight style allVariants subsets \<noteq> ''''
        \<and> asset = \<lparr>asset_filename =
                      (if style = ''normal'' then numberToString weight @ ''.css''
                       else numberToString weight @ ''-italic.css''),
                    asset_content =
                      textEncode (generateStaticCSS family weight style allVariants subsets)\<rparr>)"
  by (auto simp: staticCssAssets_def Let_def split: if_splits)

lemma staticCssAssets_no_index:
  "asset \<in> set (staticCssAssets family subsets allVariants weights styles) \<Longrightarrow>
     asset_filename asset \<noteq> ''index.css''"
proof -
  assume "asset \<in> set (staticCssAssets family subsets allVariants weights styles)"
  then obtain weight style where
    "asset_filename asset = (if style = ''normal'' then numberToString weight @ ''.css''
                       else numberToString weight @ ''-italic.css'')"
    unfolding staticCssAssets_mem by force
  then show ?thesis
    using weight_css_not_index [of weight] by (cases "style = ''normal''") metis+
qed

lemma staticCssAssets_default:
  assumes "asset \<in> set (staticCssAssets family subsets allVariants weights styles)"
    and "asset_filename asset = numberToString d @ ''.css''"
  shows "d \<in> set weights" and "''normal'' \<in> set styles"
    and "generateStaticCSS family d ''normal'' allVariants subsets \<noteq> ''''"
    and "asset_content asset
           = textEncode (generateStaticCSS family d ''normal'' allVariants subsets)"
proof -
  from assms(1) obtain weight style where w: "weight \<in> set weights" and s: "style \<in> set styles"
    and ne: "generateStaticCSS family weight style allVariants subsets \<noteq> ''''"
    and a: "asset = \<lparr>asset_filename =
                      (if style = ''normal'' then numberToString weight @ ''.css''
                       else numberToString weight @ ''-italic.css''),
                    asset_content =
                      textEncode (generateStaticCSS family weight style allVariants subsets)\<rparr>"
    unfolding staticCssAssets_mem by blast
  have st: "style = ''normal''"
  proof (rule ccontr)
    assume "style \<noteq> ''normal''"
    then have "numberToString weight @ ''-italic.css'' = numberToString d @ ''.css''"
      using a assms(2) by simp
    then show False
      using italic_css_not_normal by blast
  qed
  then have "numberToString weight @ ''.css'' = numberToString d @ ''.css''"
    using a assms(2) by simp
  then have wd: "weight = d"
    by (simp only: normal_css_eq)
  show "d \<in> set weights" using w wd by simp
  show "''normal'' \<in> set styles" using s st by simp
  show "generateStaticCSS family d ''normal'' allVariants subsets \<noteq> ''''"
    using ne st wd by simp
  show "asset_content asset
           = textEncode (generateStaticCSS family d ''normal'' allVariants subsets)"
    using a st wd by simp
qed

text \<open>
  C6, as the code has it: in a static build, a stylesheet named \<open>index.css\<close>, when
  one is emitted, has the content of the stylesheet \<open><d>.css\<close> of the normal style,
  which is emitted too, where \<open>d\<close> is the weight closest to 400 among the weights to
  process, the heavier one of two that are equally close. It is emitted exactly when the
  normal style is among the styles to process and the stylesheet of \<open>d\<close> and the
  normal style is not empty.
\<close>

theorem index_css_copy:
  assumes cfg: "ctx_config ctx = StaticConfig b ws0 ss0"
  shows "(\<forall>asset \<in> set (generateAllCssAssets ctx allVariants weightsToProcess stylesToProcess).
            asset_filename asset = ''index.css'' \<longrightarrow>
            (\<exists>d. defaultWeightOf weightsToProcess = Some d
               \<and> d \<in> set weightsToProcess
               \<and> (\<forall>w \<in> set weightsToProcess.
                     abs (d - 400) < abs (w - 400)
                     \<or> (abs (d - 400) = abs (w - 400) \<and> w \<le> d))
               \<and> asset_content asset
                   = textEncode (generateStaticCSS (cfg_family b) d ''normal'' allVariants
                       (ctx_subsets ctx))
               \<and> \<lparr>asset_filename = numberToString d @ ''.css'',
                    asset_content = asset_content asset\<rparr>
                   \<in> set (generateAllCssAssets ctx allVariants weightsToProcess
                            stylesToProcess)))
    \<and> ((\<exists>asset \<in> set (generateAllCssAssets ctx allVariants weightsToProcess stylesToProcess).
            asset_filename asset = ''index.css'') \<longleftrightarrow>
         (\<exists>d. defaultWeightOf weightsToProcess = Some d
            \<and> ''normal'' \<in> set stylesToProcess
            \<and> generateStaticCSS (cfg_family b) d ''normal'' allVariants (ctx_subsets ctx)
                \<noteq> ''''))"
proof -
  let ?A = "staticCssAssets (cfg_family b) (ctx_subsets ctx) allVariants weightsToProcess
              stylesToProcess"
  let ?R = "generateAllCssAssets ctx allVariants weightsToProcess stylesToProcess"
  let ?css = "\<lambda>d. generateStaticCSS (cfg_family b) d ''normal'' allVariants (ctx_subsets ctx)"
  show ?thesis
  proof (cases "defaultWeightOf weightsToProcess")
    case None
    then have R: "?R = ?A"
      using cfg by (simp add: generateAllCssAssets_def)
    have "\<forall>asset \<in> set ?R. asset_filename asset \<noteq> ''index.css''"
      unfolding R using staticCssAssets_no_index by blast
    then show ?thesis
      using None by auto
  next
    case (Some d)
    note closest = defaultWeightOf_closest [OF Some]
    show ?thesis
    proof (cases "find (\<lambda>asset. asset_filename asset = numberToString d @ ''.css'') ?A")
      case None
      then have R: "?R = ?A"
        using cfg Some by (simp add: generateAllCssAssets_def)
      have noidx: "\<forall>asset \<in> set ?R. asset_filename asset \<noteq> ''index.css''"
        unfolding R using staticCssAssets_no_index by blast
      have "\<not> (''normal'' \<in> set stylesToProcess \<and> ?css d \<noteq> '''')"
      proof
        assume "''normal'' \<in> set stylesToProcess \<and> ?css d \<noteq> ''''"
        then have "\<lparr>asset_filename = numberToString d @ ''.css'',
                    asset_content = textEncode (?css d)\<rparr> \<in> set ?A"
          unfolding staticCssAssets_mem using closest(1) by force
        then show False
          using None by (auto simp: find_None_iff)
      qed
      then show ?thesis
        using noidx Some by auto
    next
      case (Some a)
      then have a: "a \<in> set ?A" "asset_filename a = numberToString d @ ''.css''"
        by (auto simp: find_Some_iff)
      have R: "?R = ?A @ [\<lparr>asset_filename = ''index.css'', asset_content = asset_content a\<rparr>]"
        using cfg \<open>defaultWeightOf weightsToProcess = Some d\<close> Some
        by (simp add: generateAllCssAssets_def)
      note dflt = staticCssAssets_default [OF a]
      have aR: "\<lparr>asset_filename = numberToString d @ ''.css'',
                  asset_content = asset_content a\<rparr> \<in> set ?R"
      proof -
        have "a = \<lparr>asset_filename = numberToString d @ ''.css'',
                   asset_content = asset_content a\<rparr>"
          using a(2) by (cases a) simp
        then show ?thesis
          unfolding R using a(1) by simp
      qed
      have only: "asset_content asset = asset_content a"
        if "asset \<in> set ?R" "asset_filename asset = ''index.css''" for asset
      proof -
        have "asset \<notin> set ?A"
          using staticCssAssets_no_index that(2) by blast
        then show ?thesis
          using that(1) unfolding R by auto
      qed
      have ex: "\<exists>asset \<in> set ?R. asset_filename asset = ''index.css''"
        unfolding R by simp
      have first: "\<forall>asset \<in> set ?R. asset_filename asset = ''index.css'' \<longrightarrow>
            (\<exists>d. defaultWeightOf weightsToProcess = Some d
               \<and> d \<in> set weightsToProcess
               \<and> (\<forall>w \<in> set weightsToProcess.
                     abs (d - 400) < abs (w - 400)
                     \<or> (abs (d - 400) = abs (w - 400) \<and> w \<le> d))
               \<and> asset_content asset = textEncode (?css d)
               \<and> \<lparr>asset_filename = numberToString d @ ''.css'',
                    asset_content = asset_content asset\<rparr> \<in> set ?R)"
      proof (intro ballI impI)
        fix asset assume as: "asset \<in> set ?R" "asset_filename asset = ''index.css''"
        have c: "asset_content asset = asset_content a"
          by (rule only [OF as])
        show "\<exists>d. defaultWeightOf weightsToProcess = Some d
               \<and> d \<in> set weightsToProcess
               \<and> (\<forall>w \<in> set weightsToProcess.
                     abs (d - 400) < abs (w - 400)
                     \<or> (abs (d - 400) = abs (w - 400) \<and> w \<le> d))
               \<and> asset_content asset = textEncode (?css d)
               \<and> \<lparr>asset_filename = numberToString d @ ''.css'',
                    asset_content = asset_content asset\<rparr> \<in> set ?R"
          using \<open>defaultWeightOf weightsToProcess = Some d\<close> closest dflt(4) aR c
          by (intro exI [of _ d]) simp
      qed
      have second: "\<exists>d. defaultWeightOf weightsToProcess = Some d
            \<and> ''normal'' \<in> set stylesToProcess \<and> ?css d \<noteq> ''''"
        using \<open>defaultWeightOf weightsToProcess = Some d\<close> dflt(2,3) by blast
      from first second ex show ?thesis
        by blast
    qed
  qed
qed

theorem index_css_copy_witness:
  "(\<exists>asset \<in> set (generateAllCssAssets
        \<lparr>ctx_familyId = ''inter'',
         ctx_config = StaticConfig
           \<lparr>cfg_family = ''Inter'', cfg_subsets = [''latin''], cfg_formats = [Woff2],
            cfg_featureSettings = [], cfg_subsetSources = [''latin'' \<mapsto> ''0x41 A'']\<rparr>
           (Some [300, 500]) (Some [''normal'']),
         ctx_subsets = [''latin'' \<mapsto> RangeSubset ''latin'' ''U+41'' [65]]\<rparr>
        [StaticVariant
           \<lparr>pv_weight = 300, pv_style = ''normal'', pv_subset = ''latin'', pv_sliceIndex = 0,
            pv_filename = ''inter-latin-300-normal.woff2'', pv_content = ''a''\<rparr>,
         StaticVariant
           \<lparr>pv_weight = 500, pv_style = ''normal'', pv_subset = ''latin'', pv_sliceIndex = 0,
            pv_filename = ''inter-latin-500-normal.woff2'', pv_content = ''b''\<rparr>]
        [300, 500] [''normal'']).
      asset_filename asset = ''index.css''
      \<and> asset_content asset
          = fontFaceText ''inter-latin-500-normal'' ''Inter'' ''normal'' ''500'' ''''
              (''url(./files/inter-latin-500-normal.woff2) format('' @ quote @ ''woff2''
                 @ quote @ '')'')
              ''U+41'')
   \<and> defaultWeightOf [300, 500] = Some 500"
proof -
  let ?cfg = "StaticConfig
           \<lparr>cfg_family = ''Inter'', cfg_subsets = [''latin''], cfg_formats = [Woff2],
            cfg_featureSettings = [], cfg_subsetSources = [''latin'' \<mapsto> ''0x41 A'']\<rparr>
           (Some [300, 500]) (Some [''normal''])"
  let ?ctx = "\<lparr>ctx_familyId = ''inter'', ctx_config = ?cfg,
         ctx_subsets = [''latin'' \<mapsto> RangeSubset ''latin'' ''U+41'' [65]]\<rparr>"
  let ?vs = "[StaticVariant
           \<lparr>pv_weight = 300, pv_style = ''normal'', pv_subset = ''latin'', pv_sliceIndex = 0,
            pv_filename = ''inter-latin-300-normal.woff2'', pv_content = ''a''\<rparr>,
         StaticVariant
           \<lparr>pv_weight = 500, pv_style = ''normal'', pv_subset = ''latin'', pv_sliceIndex = 0,
            pv_filename = ''inter-latin-500-normal.woff2'', pv_content = ''b''\<rparr>]"
  have c: "ctx_config ?ctx = ?cfg"
    by simp
  have d: "defaultWeightOf [300, 500] = Some 500"
    by (simp add: closerTo400_def)
  have css: "textEncode (generateStaticCSS ''Inter'' 500 ''normal'' ?vs
               [''latin'' \<mapsto> RangeSubset ''latin'' ''U+41'' [65]])
      = fontFaceText ''inter-latin-500-normal'' ''Inter'' ''normal'' ''500'' ''''
              (''url(./files/inter-latin-500-normal.woff2) format('' @ quote @ ''woff2''
                 @ quote @ '')'')
              ''U+41''"
    by (simp add: generateStaticCSS_def generateCSS_def groupVariants_def generateFontFace_def
        textEncode_def css_eval fontFaceText_def newline_def)
  have ne: "generateStaticCSS ''Inter'' 500 ''normal'' ?vs
               [''latin'' \<mapsto> RangeSubset ''latin'' ''U+41'' [65]] \<noteq> ''''"
    using css by (auto simp: textEncode_def fontFaceText_def)
  from index_css_copy [OF c, of ?vs "[300, 500]" "[''normal'']"] d ne css
  show ?thesis
    by auto
qed

text \<open>
  C6, as the claim has it, fails for a build that is asked for the weights 400 and 700
  with one font of fixed weight 700: the stylesheet \<open>700.css\<close> is produced and no
  \<open>index.css\<close> is.
\<close>

lemmas build_eval =
  buildFont_def allProcessingJobs_def fontAsset_def generateSubsetData_def subsetDataStep_def parseNamFile_def parseInt16_def
  isHexDigit_def hexDigitValue_def trim_def isWhiteSpace_def startsWith_def
  codepointsToRangeString_def newSet_def setAdd_def rangeText_def toHexUpper.simps
  digitChar_def determineProcessingTargets_def jobsForFont_def extractFontStyle_def
  createJobsForSubset_def runJobs_def completionOrder_def processJob_def processSlice_def buildAxisValues_def
  variableTag_def generateStaticFilename_def normalizeStyleForFilename_def
  generateAllCssAssets_def staticCssAssets_def generateStaticCSS_def generateCSS_def
  groupVariants_def generateFontFace_def textEncode_def closerTo400_def
  css_eval

theorem index_css_copy_counterexample:
  "buildFont
     \<lparr>env_loadFonts =
        (\<lambda>buffers. Inr [\<lparr>font_id = 0,
           font_styleValues = \<lparr>sv_weight = SingleValue 700, sv_width = SingleValue 100,
             sv_italic = SingleValue 0, sv_slant = SingleValue 0\<rparr>\<rparr>]),
      env_subset = (\<lambda>font settings. Inr ''ttf''),
      env_compressFromTTF = (\<lambda>data format level. Inr ''woff2''),
      env_finishTime = (\<lambda>position. 0)\<rparr>
     [''font'']
     (StaticConfig
        \<lparr>cfg_family = ''Inter'', cfg_subsets = [''latin''], cfg_formats = [Woff2],
         cfg_featureSettings = [], cfg_subsetSources = [''latin'' \<mapsto> ''0x41 A'']\<rparr>
        (Some [400, 700]) (Some [''normal'']))
   = Some (Inr ([],
       \<lparr>pkg_css =
          [\<lparr>asset_filename = ''700.css'',
            asset_content =
              fontFaceText ''inter-latin-700-normal'' ''Inter'' ''normal'' ''700'' ''''
                (''url(./files/inter-latin-700-normal.woff2) format('' @ quote @ ''woff2''
                   @ quote @ '')'')
                ''U+41''\<rparr>],
        pkg_fonts =
          [\<lparr>asset_filename = ''files/inter-latin-700-normal.woff2'',
            asset_content = ''woff2''\<rparr>]\<rparr>))"
  by (simp add: build_eval fontFaceText_def newline_def)

section \<open>Failure of one job\<close>

lemma processSlice_throws:
  "processSlice env ctx font subsetName codepoints sliceIndex weight style format
     targetWeight variableConfig axisKey = Inl e \<longleftrightarrow>
   env_subset env font
     \<lparr>ss_axisValues = buildAxisValues font variableConfig targetWeight,
      ss_features = cfg_featureSettings (baseConfig (ctx_config ctx)),
      ss_named = [], ss_custom = codepoints\<rparr> = Inl e
   \<or> (\<exists>data. env_subset env font
          \<lparr>ss_axisValues = buildAxisValues font variableConfig targetWeight,
           ss_features = cfg_featureSettings (baseConfig (ctx_config ctx)),
           ss_named = [], ss_custom = codepoints\<rparr> = Inr data
        \<and> env_compressFromTTF env data format 11 = Inl e)"
  by (auto simp: processSlice_def Let_def split: sum.splits option.splits)

lemma mset_completionOrder: "mset (completionOrder env xs) = mset xs"
proof -
  have "mset (completionOrder env xs)
      = image_mset snd (mset (sort_key (\<lambda>(i, r). env_finishTime env i) (enumerate 0 xs)))"
    by (simp add: completionOrder_def)
  also have "\<dots> = image_mset snd (mset (enumerate 0 xs))"
    by simp
  also have "\<dots> = mset (map snd (enumerate 0 xs))"
    by (simp only: mset_map)
  also have "\<dots> = mset xs"
    by (simp only: map_snd_enumerate)
  finally show ?thesis .
qed

lemma mset_concat_map_perm:
  assumes "mset ys = mset xs"
  shows "mset (concat (map f ys)) = mset (concat (map f xs))"
proof -
  have "mset (concat (map f zs)) = (\<Sum>z \<in># mset zs. mset (f z))" for zs
    by (induction zs) simp_all
  then show ?thesis
    using assms by simp
qed

lemma runJobs_mset:
  "mset (fst (runJobs env ctx jobs)) = mset (variantsOf env ctx jobs)"
  "mset (snd (runJobs env ctx jobs)) = mset (warningsOf env ctx jobs)"
proof -
  let ?results = "map (processJob env ctx) jobs"
  have p: "mset (completionOrder env ?results) = mset ?results"
    by (rule mset_completionOrder)
  have "mset (fst (runJobs env ctx jobs))
      = mset (concat (map (\<lambda>(v, _). case v of Some variant \<Rightarrow> [variant] | None \<Rightarrow> [])
                        ?results))"
    unfolding runJobs_def Let_def fst_conv by (rule mset_concat_map_perm [OF p])
  then show "mset (fst (runJobs env ctx jobs)) = mset (variantsOf env ctx jobs)"
    by (simp add: variantsOf_def comp_def case_prod_beta)
  have "mset (snd (runJobs env ctx jobs)) = mset (concat (map snd ?results))"
    unfolding runJobs_def Let_def snd_conv by (rule mset_concat_map_perm [OF p])
  then show "mset (snd (runJobs env ctx jobs)) = mset (warningsOf env ctx jobs)"
    by (simp add: warningsOf_def comp_def)
qed

lemma buildFont_package:
  assumes "env_loadFonts env fontBuffers = Inr fontRefs"
    and "generateSubsetData config = Some (warnings, subsets)"
    and "determineProcessingTargets fontRefs config = (weightsToProcess, stylesToProcess)"
    and "ctx = \<lparr>ctx_familyId = normalizeKebabCase (cfg_family (baseConfig config)),
                ctx_config = config, ctx_subsets = subsets\<rparr>"
    and "jobs = allProcessingJobs fontRefs config subsets weightsToProcess stylesToProcess"
  shows "buildFont env fontBuffers config
     = Some (Inr (map Warn warnings @ snd (runJobs env ctx jobs),
          \<lparr>pkg_css = generateAllCssAssets ctx (fst (runJobs env ctx jobs)) weightsToProcess
                       stylesToProcess,
           pkg_fonts = map fontAsset (fst (runJobs env ctx jobs))\<rparr>))"
  using assms by (simp add: buildFont_def Let_def case_prod_beta)

text \<open>
  C1: let the fonts load, and let a job of the plan fail: its subsetting call throws, or
  its compression call does. Then the job yields no variant and one warning, which
  names the kind of build, the slice when the slice index is positive, the subset and
  the format. The jobs run concurrently and their results are collected as they
  complete, so the statement is up to this order: the variants of the build are, each
  as often as it occurs, the variants that the other jobs of the plan produce, the
  warnings of the jobs are those of the other jobs and this one warning, and the build
  returns its package, the font assets and the stylesheets of the collected variants.
\<close>

theorem failed_job_isolated:
  assumes load: "env_loadFonts env fontBuffers = Inr fontRefs"
    and subsetData: "generateSubsetData config = Some (warnings, subsets)"
    and targets: "determineProcessingTargets fontRefs config = (weightsToProcess, stylesToProcess)"
    and ctx: "ctx = \<lparr>ctx_familyId = normalizeKebabCase (cfg_family (baseConfig config)),
                ctx_config = config, ctx_subsets = subsets\<rparr>"
    and plan: "allProcessingJobs fontRefs config subsets weightsToProcess stylesToProcess
                 = pre @ job # post"
    and settings: "settings =
        \<lparr>ss_axisValues =
           buildAxisValues (job_font job) (job_variableConfig job) (job_targetWeight job),
         ss_features = cfg_featureSettings (baseConfig config),
         ss_named = [], ss_custom = job_codepoints job\<rparr>"
    and throws: "env_subset env (job_font job) settings = Inl e
        \<or> (\<exists>data. env_subset env (job_font job) settings = Inr data
              \<and> env_compressFromTTF env data (job_format job) 11 = Inl e)"
    and warning: "warning =
        WarnError
          (''Failed to process ''
             @ (if job_variableConfig job \<noteq> None then ''variable'' else ''static'')
             @ '' font''
             @ (if job_sliceIndex job > 0 then '' slice '' @ natToString (job_sliceIndex job)
                else '''')
             @ '' for '' @ job_subsetName job
             @ '' ('' @ formatString (job_format job) @ ''):'')
          e"
  shows "processJob env ctx job = (None, [warning])
    \<and> mset (fst (runJobs env ctx (pre @ job # post))) = mset (variantsOf env ctx (pre @ post))
    \<and> mset (snd (runJobs env ctx (pre @ job # post)))
        = mset (warningsOf env ctx (pre @ post)) + {#warning#}
    \<and> buildFont env fontBuffers config
        = Some (Inr (map Warn warnings @ snd (runJobs env ctx (pre @ job # post)),
             \<lparr>pkg_css =
                generateAllCssAssets ctx (fst (runJobs env ctx (pre @ job # post)))
                  weightsToProcess stylesToProcess,
              pkg_fonts = map fontAsset (fst (runJobs env ctx (pre @ job # post)))\<rparr>))"
proof -
  have slice: "processSlice env ctx (job_font job) (job_subsetName job)
             (job_codepoints job) (job_sliceIndex job) (job_weight job) (job_style job)
             (job_format job) (job_targetWeight job) (job_variableConfig job)
             (job_axisKey job) = Inl e"
    unfolding processSlice_throws using throws settings ctx by simp
  have pj: "processJob env ctx job = (None, [warning])"
    using slice warning by (simp add: processJob_def Let_def)
  have v: "mset (fst (runJobs env ctx (pre @ job # post)))
      = mset (variantsOf env ctx (pre @ post))"
    unfolding runJobs_mset using pj by (simp add: variantsOf_def)
  have w: "mset (snd (runJobs env ctx (pre @ job # post)))
      = mset (warningsOf env ctx (pre @ post)) + {#warning#}"
    unfolding runJobs_mset using pj by (simp add: warningsOf_def)
  have b: "buildFont env fontBuffers config
     = Some (Inr (map Warn warnings @ snd (runJobs env ctx (pre @ job # post)),
          \<lparr>pkg_css = generateAllCssAssets ctx (fst (runJobs env ctx (pre @ job # post)))
                       weightsToProcess stylesToProcess,
           pkg_fonts = map fontAsset (fst (runJobs env ctx (pre @ job # post)))\<rparr>))"
    using buildFont_package [OF load subsetData targets ctx plan [symmetric]] .
  from pj v w b show ?thesis
    by blast
qed

theorem failed_job_isolated_witness:
  "\<exists>css.
     buildFont
       \<lparr>env_loadFonts =
          (\<lambda>buffers. Inr [\<lparr>font_id = 0,
             font_styleValues = \<lparr>sv_weight = SingleValue 400, sv_width = SingleValue 100,
               sv_italic = SingleValue 0, sv_slant = SingleValue 0\<rparr>\<rparr>]),
        env_subset = (\<lambda>font settings. Inr ''ttf''),
        env_compressFromTTF =
          (\<lambda>data format level.
             if format = Woff then Inl (Thrown ''unsupported'') else Inr ''woff2-data''),
        env_finishTime = (\<lambda>position. 10 - position)\<rparr>
       [''font'']
       (StaticConfig
          \<lparr>cfg_family = ''Inter'', cfg_subsets = [''latin'', ''greek''],
           cfg_formats = [Woff, Woff2], cfg_featureSettings = [],
           cfg_subsetSources = [''latin'' \<mapsto> ''0x41 A'', ''greek'' \<mapsto> ''0x391 ALPHA'']\<rparr>
          (Some [400]) (Some [''normal'']))
     = Some (Inr ([WarnError ''Failed to process static font for greek (woff):''
                     (Thrown ''unsupported''),
                   WarnError ''Failed to process static font for latin (woff):''
                     (Thrown ''unsupported'')],
         \<lparr>pkg_css = css,
          pkg_fonts =
            [\<lparr>asset_filename = ''files/inter-greek-400-normal.woff2'',
              asset_content = ''woff2-data''\<rparr>,
             \<lparr>asset_filename = ''files/inter-latin-400-normal.woff2'',
              asset_content = ''woff2-data''\<rparr>]\<rparr>))"
proof -
  let ?font = "\<lparr>font_id = 0,
             font_styleValues = \<lparr>sv_weight = SingleValue 400, sv_width = SingleValue 100,
               sv_italic = SingleValue 0, sv_slant = SingleValue 0\<rparr>\<rparr>"
  let ?env = "\<lparr>env_loadFonts = (\<lambda>buffers. Inr [?font]),
        env_subset = (\<lambda>font settings. Inr ''ttf''),
        env_compressFromTTF =
          (\<lambda>data format level.
             if format = Woff then Inl (Thrown ''unsupported'') else Inr ''woff2-data''),
        env_finishTime = (\<lambda>position. 10 - position)\<rparr>"
  let ?cfg = "StaticConfig
          \<lparr>cfg_family = ''Inter'', cfg_subsets = [''latin'', ''greek''],
           cfg_formats = [Woff, Woff2], cfg_featureSettings = [],
           cfg_subsetSources = [''latin'' \<mapsto> ''0x41 A'', ''greek'' \<mapsto> ''0x391 ALPHA'']\<rparr>
          (Some [400]) (Some [''normal''])"
  let ?subsets = "[''latin'' \<mapsto> RangeSubset ''latin'' ''U+41'' [65],
                   ''greek'' \<mapsto> RangeSubset ''greek'' ''U+391'' [913]]"
  let ?ctx2 = "\<lparr>ctx_familyId = normalizeKebabCase ''Inter'',
                ctx_config = ?cfg, ctx_subsets = ?subsets\<rparr>"
  let ?job = "\<lambda>subsetName codepoints format.
     \<lparr>job_font = ?font, job_subsetName = subsetName, job_codepoints = codepoints,
      job_sliceIndex = 0, job_weight = 400, job_style = ''normal'', job_format = format,
      job_targetWeight = Some 400, job_variableConfig = None, job_axisKey = None\<rparr>"
  have load: "env_loadFonts ?env [''font''] = Inr [?font]"
    by simp
  have subsetData: "generateSubsetData ?cfg = Some ([], ?subsets)"
    by (simp add: generateSubsetData_def subsetDataStep_def parseNamFile_def parseInt16_def
        isHexDigit_def hexDigitValue_def trim_def isWhiteSpace_def startsWith_def
        codepointsToRangeString_def newSet_def setAdd_def rangeText_def toHexUpper.simps
        digitChar_def)
  have targets: "determineProcessingTargets [?font] ?cfg = ([400], [''normal''])"
    by (simp add: determineProcessingTargets_def)
  have plan: "allProcessingJobs [?font] ?cfg ?subsets [400] [''normal'']
      = [] @ ?job ''latin'' [65] Woff
          # [?job ''latin'' [65] Woff2, ?job ''greek'' [913] Woff, ?job ''greek'' [913] Woff2]"
    by (simp add: allProcessingJobs_def jobsForFont_def extractFontStyle_def
        createJobsForSubset_def)
  have throws: "env_subset ?env (job_font (?job ''latin'' [65] Woff))
        \<lparr>ss_axisValues = buildAxisValues (job_font (?job ''latin'' [65] Woff))
           (job_variableConfig (?job ''latin'' [65] Woff))
           (job_targetWeight (?job ''latin'' [65] Woff)),
         ss_features = cfg_featureSettings (baseConfig ?cfg),
         ss_named = [], ss_custom = job_codepoints (?job ''latin'' [65] Woff)\<rparr>
         = Inl (Thrown ''unsupported'')
      \<or> (\<exists>data. env_subset ?env (job_font (?job ''latin'' [65] Woff))
        \<lparr>ss_axisValues = buildAxisValues (job_font (?job ''latin'' [65] Woff))
           (job_variableConfig (?job ''latin'' [65] Woff))
           (job_targetWeight (?job ''latin'' [65] Woff)),
         ss_features = cfg_featureSettings (baseConfig ?cfg),
         ss_named = [], ss_custom = job_codepoints (?job ''latin'' [65] Woff)\<rparr> = Inr data
          \<and> env_compressFromTTF ?env data (job_format (?job ''latin'' [65] Woff)) 11
              = Inl (Thrown ''unsupported''))"
    by simp
  have run: "runJobs ?env ?ctx2
        [?job ''latin'' [65] Woff, ?job ''latin'' [65] Woff2, ?job ''greek'' [913] Woff,
         ?job ''greek'' [913] Woff2]
      = ([StaticVariant
            \<lparr>pv_weight = 400, pv_style = ''normal'', pv_subset = ''greek'', pv_sliceIndex = 0,
             pv_filename = ''inter-greek-400-normal.woff2'', pv_content = ''woff2-data''\<rparr>,
          StaticVariant
            \<lparr>pv_weight = 400, pv_style = ''normal'', pv_subset = ''latin'', pv_sliceIndex = 0,
             pv_filename = ''inter-latin-400-normal.woff2'', pv_content = ''woff2-data''\<rparr>],
         [WarnError ''Failed to process static font for greek (woff):''
            (Thrown ''unsupported''),
          WarnError ''Failed to process static font for latin (woff):''
            (Thrown ''unsupported'')])"
    by (simp add: runJobs_def completionOrder_def processJob_def processSlice_def
        buildAxisValues_def variableTag_def generateStaticFilename_def
        normalizeStyleForFilename_def css_eval)
  from failed_job_isolated [OF load subsetData targets refl plan refl throws refl]
  show ?thesis
    by (simp add: run fontAsset_def)
qed

end
